theory Spec2Isabelle
  imports Main "HOL-Library.Sublist"
begin

section \<open>Strings, character classes and the regular expressions of flext.py\<close>

text \<open>
  Python strings are modelled as \<^typ>\<open>string\<close>. The character classes below are those
  of Python's \<open>re\<close> module on the ASCII range (\<open>\s\<close> is \<open>str.isspace\<close> on ASCII: the
  code points 9 to 13, 28 to 31 and 32); profile and registry texts are taken to be ASCII.
\<close>

definition newline :: char where
  "newline = CHR 0x0A"

definition is_space :: "char \<Rightarrow> bool" where
  "is_space c = ((9 \<le> (of_char c :: nat) \<and> (of_char c :: nat) \<le> 13)
     \<or> (28 \<le> (of_char c :: nat) \<and> (of_char c :: nat) \<le> 32))"

definition is_digit :: "char \<Rightarrow> bool" where
  "is_digit c = (48 \<le> (of_char c :: nat) \<and> (of_char c :: nat) \<le> 57)"

definition is_word :: "char \<Rightarrow> bool" where
  "is_word c = (is_digit c
     \<or> (65 \<le> (of_char c :: nat) \<and> (of_char c :: nat) \<le> 90)
     \<or> (97 \<le> (of_char c :: nat) \<and> (of_char c :: nat) \<le> 122)
     \<or> c = CHR ''_'')"

definition not_newline :: "char \<Rightarrow> bool" where
  "not_newline c = (c \<noteq> newline)"

text \<open>
  The fragment of regular expressions the program uses. Every quantifier of the source
  (\<open>\s+\<close>, \<open>\s*\<close>, \<open>\w+\<close>, \<open>.*\<close>) is a greedy repetition of one character class.
\<close>

datatype regex =
    Lit string
  | Cls "char \<Rightarrow> bool"
  | StarC "char \<Rightarrow> bool"
  | PlusC "char \<Rightarrow> bool"
  | Seq regex regex
  | Alt regex regex
  | Group regex
  | Eps
  | Eol

text \<open>
  Backtracking matching as a list of successes, in the order Python's engine tries them:
  a greedy repetition offers the longest run first, an alternation its left branch first.
  A success is the list of groups captured so far and the rest of the subject.
  \<open>$\<close> (without MULTILINE) holds at the end of the subject and just before a final newline.
\<close>

fun run :: "regex \<Rightarrow> string list \<times> string \<Rightarrow> (string list \<times> string) list" where
  "run (Lit l) (caps, s) = (if take (length l) s = l then [(caps, drop (length l) s)] else [])"
| "run (Cls P) (caps, s) = (case s of [] \<Rightarrow> [] | c # r \<Rightarrow> if P c then [(caps, r)] else [])"
| "run (StarC P) (caps, s) =
     map (\<lambda>k. (caps, drop k s)) (rev [0 ..< Suc (length (takeWhile P s))])"
| "run (PlusC P) (caps, s) =
     map (\<lambda>k. (caps, drop k s)) (rev [1 ..< Suc (length (takeWhile P s))])"
| "run (Seq a b) st = concat (map (run b) (run a st))"
| "run (Alt a b) st = run a st @ run b st"
| "run (Group a) (caps, s) =
     map (\<lambda>(caps', r). (caps' @ [take (length s - length r) s], r)) (run a (caps, s))"
| "run Eps st = [st]"
| "run Eol (caps, s) = (if s = [] \<or> s = [newline] then [(caps, s)] else [])"

text \<open>\<open>pattern.match(line)\<close>: anchored at the start; the groups of the first success.\<close>

definition re_match :: "regex \<Rightarrow> string \<Rightarrow> string list option" where
  "re_match p s = (case run p ([], s) of [] \<Rightarrow> None | (caps, r) # rest \<Rightarrow> Some caps)"

text \<open>\<open>match.group(i)\<close> for \<open>i \<ge> 1\<close>.\<close>

definition group :: "string list \<Rightarrow> nat \<Rightarrow> string" where
  "group caps i = caps ! (i - 1)"

fun seqs :: "regex list \<Rightarrow> regex" where
  "seqs [] = Eps"
| "seqs [r] = r"
| "seqs (r # rs) = Seq r (seqs rs)"

text \<open>\<^verbatim>\<open>'#.*$|\s+$'\<close>\<close>

definition comment_pattern :: regex where
  "comment_pattern =
     Alt (seqs [Lit ''#'', StarC not_newline, Eol]) (seqs [PlusC is_space, Eol])"

text \<open>\<^verbatim>\<open>'version\s+(\d)\.(\d)\s*(core|compatibility|es|)\s*$'\<close>\<close>

definition version_pattern :: regex where
  "version_pattern =
     seqs [Lit ''version'', PlusC is_space, Group (Cls is_digit), Lit ''.'',
           Group (Cls is_digit), StarC is_space,
           Group (Alt (Lit ''core'') (Alt (Lit ''compatibility'') (Alt (Lit ''es'') Eps))),
           StarC is_space, Eol]"

text \<open>\<^verbatim>\<open>'extension\s+(\w+)\s+(required|optional)\s*$'\<close>\<close>

definition extension_pattern :: regex where
  "extension_pattern =
     seqs [Lit ''extension'', PlusC is_space, Group (PlusC is_word), PlusC is_space,
           Group (Alt (Lit ''required'') (Lit ''optional'')), StarC is_space, Eol]"

text \<open>\<^verbatim>\<open>'(\d)\.(\d)'\<close>, the pattern of \<open>parse_int_version\<close>.\<close>

definition number_pattern :: regex where
  "number_pattern = seqs [Group (Cls is_digit), Lit ''.'', Group (Cls is_digit)]"

section \<open>Errors\<close>

text \<open>
  The three fatal diagnostics of \<open>parse_profile\<close> (each followed by \<open>exit(1)\<close>) carry the
  line number; the others are the Python exceptions the registry code can raise.
\<close>

datatype error =
    DuplicateVersion nat
  | DuplicateExtension nat
  | SyntaxError nat string
  | ValueError
  | AttributeError
  | KeyError string

text \<open>The process status of a run that ends in the given error.\<close>

fun exit_status :: "error \<Rightarrow> int" where
  "exit_status e = 1"

section \<open>Profile file parsing\<close>

text \<open>
  Several classes of the program share field names (\<open>name\<close>, \<open>api\<close>, \<open>params\<close>), and
  parameters are called \<open>api\<close>, \<open>profile\<close>, \<open>version\<close>; the fields of each record
  therefore carry the class as a prefix.
\<close>

record Version =
  version_api :: string
  version_major :: int
  version_minor :: int
  version_profile :: string

text \<open>
  \<open>int(s)\<close> on a non-empty run of decimal digits; any other argument is a ValueError here
  (the program only passes a single character matched by \<open>\d\<close>).
\<close>

definition py_int :: "string \<Rightarrow> int option" where
  "py_int s =
     (if s \<noteq> [] \<and> list_all is_digit s
      then Some (foldl (\<lambda>acc c. 10 * acc + (int (of_char c) - 48)) 0 s)
      else None)"

definition Version_init :: "string \<Rightarrow> string \<Rightarrow> string \<Rightarrow> error + Version" where
  "Version_init mj mn profile_or_api =
     (let a = (if profile_or_api \<in> set [''es1'', ''es2''] then ''gl'' @ profile_or_api else ''gl'')
      in case py_int mj of
           None \<Rightarrow> Inl ValueError
         | Some j \<Rightarrow>
             (case py_int mn of
                None \<Rightarrow> Inl ValueError
              | Some n \<Rightarrow>
                  Inr \<lparr>version_api = a, version_major = j, version_minor = n,
                       version_profile = (if a = ''gl'' then profile_or_api else '''')\<rparr>))"

definition int_value :: "Version \<Rightarrow> int" where
  "int_value v = 10 * version_major v + version_minor v"

record profile_state =
  st_version :: "Version option"
  st_extensions :: "(string \<times> bool) list"
  st_extension_set :: "string set"

definition initial_state :: profile_state where
  "initial_state = \<lparr>st_version = None, st_extensions = [], st_extension_set = {}\<rparr>"

text \<open>The body of the loop of \<open>parse_profile\<close> for one line.\<close>

definition profile_line :: "profile_state \<Rightarrow> nat \<Rightarrow> string \<Rightarrow> error + profile_state" where
  "profile_line st line_no line =
     (case re_match version_pattern line of
        Some m \<Rightarrow>
          if st_version st \<noteq> None then Inl (DuplicateVersion line_no)
          else
            (case (if group m 3 = ''es''
                   then Version_init (group m 1) (group m 2)
                          (if group m 1 = ''1'' then ''es1'' else ''es2'')
                   else Version_init (group m 1) (group m 2) (group m 3)) of
               Inl e \<Rightarrow> Inl e
             | Inr v \<Rightarrow> Inr (st\<lparr>st_version := Some v\<rparr>))
      | None \<Rightarrow>
          (case re_match extension_pattern line of
             Some m \<Rightarrow>
               if group m 1 \<in> st_extension_set st then Inl (DuplicateExtension line_no)
               else Inr (st\<lparr>st_extension_set := insert (group m 1) (st_extension_set st),
                              st_extensions :=
                                st_extensions st @ [(group m 1, group m 2 = ''required'')]\<rparr>)
           | None \<Rightarrow>
               (case re_match comment_pattern line of
                  None \<Rightarrow> Inl (SyntaxError line_no line)
                | Some m \<Rightarrow> Inr st)))"

fun profile_loop :: "profile_state \<Rightarrow> nat \<Rightarrow> string list \<Rightarrow> error + profile_state" where
  "profile_loop st n [] = Inr st"
| "profile_loop st n (l # ls) =
     (case profile_line st n l of
        Inl e \<Rightarrow> Inl e
      | Inr st' \<Rightarrow> profile_loop st' (Suc n) ls)"

text \<open>
  \<open>parse_profile\<close> on the lines the file yields (each with its line terminator), numbered
  from 1.
\<close>

definition parse_profile :: "string list \<Rightarrow> error + (Version option \<times> (string \<times> bool) list)" where
  "parse_profile lines =
     (case profile_loop initial_state 1 lines of
        Inl e \<Rightarrow> Inl e
      | Inr st \<Rightarrow> Inr (st_version st, st_extensions st))"

section \<open>The registry document\<close>

text \<open>
  An element of the parsed document, with the fields of \<open>xml.etree.ElementTree.Element\<close>:
  tag, attribute dictionary, text (possibly \<open>None\<close>), tail (possibly \<open>None\<close>) and the
  child elements in document order (\<open>node_text\<close> and \<open>node_tail\<close> are the fields \<open>text\<close>
  and \<open>tail\<close>).
\<close>

datatype xml =
  Element (tag: string) (attrib: "(string \<times> string) list")
    (node_text: "string option") (node_tail: "string option") (children: "xml list")

text \<open>\<open>element.attrib[k]\<close> as a lookup; \<open>k in element.attrib\<close> is \<open>get_attr e k \<noteq> None\<close>.\<close>

definition get_attr :: "xml \<Rightarrow> string \<Rightarrow> string option" where
  "get_attr e k = map_of (attrib e) k"

text \<open>
  \<open>findall\<close> along a path of child steps (\<open>./a/b\<close> is \<open>[''a'', ''b'']\<close>), in document order,
  and \<open>find\<close>, its first result.
\<close>

fun findall :: "string list \<Rightarrow> xml \<Rightarrow> xml list" where
  "findall [] e = [e]"
| "findall (t # ts) e = concat (map (findall ts) (filter (\<lambda>c. tag c = t) (children e)))"

definition find :: "string list \<Rightarrow> xml \<Rightarrow> xml option" where
  "find path e = (case findall path e of [] \<Rightarrow> None | x # xs \<Rightarrow> Some x)"

definition safe_text :: "string option \<Rightarrow> string" where
  "safe_text t = (case t of None \<Rightarrow> [] | Some s \<Rightarrow> s)"

definition xml_extract_all_text :: "xml \<Rightarrow> (string \<times> string) list \<Rightarrow> string" where
  "xml_extract_all_text node substitutes =
     concat (safe_text (node_text node) #
       concat (map (\<lambda>item.
         [case map_of substitutes (tag item) of
            Some s \<Rightarrow> s
          | None \<Rightarrow> safe_text (node_text item),
          safe_text (node_tail item)]) (children node)))"

text \<open>\<open>str.strip()\<close>\<close>

definition strip :: "string \<Rightarrow> string" where
  "strip s = rev (dropWhile is_space (rev (dropWhile is_space s)))"

text \<open>
  \<open>xml_parse_type_name_pair\<close>; the argument is \<open>None\<close> when the caller's \<open>find\<close> found
  nothing. A missing \<open>name\<close> child, or a \<open>name\<close> or \<open>ptype\<close> child without text, is an
  AttributeError on \<open>None\<close>.
\<close>

definition xml_parse_type_name_pair :: "xml option \<Rightarrow> error + (string \<times> string \<times> string option)" where
  "xml_parse_type_name_pair n =
     (case n of
        None \<Rightarrow> Inl AttributeError
      | Some node \<Rightarrow>
          (case find [''name''] node of
             None \<Rightarrow> Inl AttributeError
           | Some nm \<Rightarrow>
               (case node_text nm of
                  None \<Rightarrow> Inl AttributeError
                | Some t \<Rightarrow>
                    (let name = strip t;
                         type = strip (xml_extract_all_text node [(''name'', [])])
                     in case find [''ptype''] node of
                          None \<Rightarrow> Inr (name, type, None)
                        | Some p \<Rightarrow>
                            (case node_text p of
                               None \<Rightarrow> Inl AttributeError
                             | Some pt \<Rightarrow> Inr (name, type, Some (strip pt)))))))"

text \<open>
  \<open>extract_names\<close>: the \<open>name\<close> attributes of the elements at the path that have one.
  The program calls it with the paths \<open>./type\<close> (on a section of a feature) and
  \<open>require/type\<close> (on an extension), and likewise for \<open>enum\<close> and \<open>command\<close>.
\<close>

definition extract_names :: "xml \<Rightarrow> string list \<Rightarrow> string list" where
  "extract_names feature selector =
     List.map_filter (\<lambda>element. get_attr element ''name'') (findall selector feature)"

definition parse_int_version :: "string \<Rightarrow> error + int" where
  "parse_int_version version_str =
     (case re_match number_pattern version_str of
        None \<Rightarrow> Inl AttributeError
      | Some m \<Rightarrow>
          (case py_int (group m 1) of
             None \<Rightarrow> Inl ValueError
           | Some a \<Rightarrow>
               (case py_int (group m 2) of
                  None \<Rightarrow> Inl ValueError
                | Some b \<Rightarrow> Inr (a * 10 + b))))"

section \<open>Entities\<close>

record Function =
  fn_name :: string
  fn_params :: "(string \<times> string) list"
  fn_returntype :: string

record APISubset =
  subset_name :: string
  subset_types :: "string list"
  subset_enums :: "string list"
  subset_commands :: "string list"

text \<open>The name of a type is the text of its \<open>name\<close> child, which can be \<open>None\<close>.\<close>

record Type =
  type_api :: "string option"
  type_name :: "string option"
  type_definition :: string
  type_dependent :: "string option"

record Command =
  cmd_name :: string
  cmd_params :: "(string \<times> string) list"
  cmd_returntype :: string
  cmd_requiredTypes :: "string set"

text \<open>Python's truth value of an optional string: \<open>None\<close> and the empty string are false.\<close>

definition truthy :: "string option \<Rightarrow> bool" where
  "truthy x = (case x of None \<Rightarrow> False | Some s \<Rightarrow> s \<noteq> [])"

section \<open>Enumerants, types and commands\<close>

fun enums_loop :: "string \<Rightarrow> xml list \<Rightarrow> (string \<rightharpoonup> string) \<Rightarrow> error + (string \<rightharpoonup> string)" where
  "enums_loop api [] enums = Inr enums"
| "enums_loop api (enum # rest) enums =
     (if get_attr enum ''api'' \<noteq> None \<and> get_attr enum ''api'' \<noteq> Some api
      then enums_loop api rest enums
      else
        (case get_attr enum ''name'' of
           None \<Rightarrow> Inl (KeyError ''name'')
         | Some name \<Rightarrow>
             (case get_attr enum ''value'' of
                None \<Rightarrow> Inl (KeyError ''value'')
              | Some v \<Rightarrow>
                  enums_loop api rest
                    (enums(name \<mapsto>
                       (case get_attr enum ''type'' of None \<Rightarrow> v | Some t \<Rightarrow> v @ t))))))"

definition parse_xml_enums :: "xml \<Rightarrow> string \<Rightarrow> error + (string \<rightharpoonup> string)" where
  "parse_xml_enums root api = enums_loop api (findall [''enums'', ''enum''] root) Map.empty"

text \<open>The first loop of \<open>parse_xml_types\<close>: one \<open>Type\<close> per type element the api filter lets through.\<close>

fun types_loop :: "string \<Rightarrow> xml list \<Rightarrow> Type list \<Rightarrow> error + Type list" where
  "types_loop api [] types = Inr types"
| "types_loop api (type # rest) types =
     (if get_attr type ''api'' \<noteq> None \<and> get_attr type ''api'' \<noteq> Some api
      then types_loop api rest types
      else
        (case (case get_attr type ''name'' of
                 Some n \<Rightarrow> Inr (Some n)
               | None \<Rightarrow>
                   (case find [''name''] type of
                      None \<Rightarrow> Inl AttributeError
                    | Some nm \<Rightarrow> Inr (node_text nm))) of
           Inl e \<Rightarrow> Inl e
         | Inr name \<Rightarrow>
             types_loop api rest
               (types @ [\<lparr>type_api = get_attr type ''api'', type_name = name,
                          type_definition = xml_extract_all_text type [(''apientry'', ''APIENTRY'')],
                          type_dependent = get_attr type ''requires''\<rparr>])))"

text \<open>
  The second loop, over the reversed list: \<open>unique_type_names\<close> maps a name to the api of
  the entry kept last for it, \<open>unique_types\<close> collects the kept entries.
\<close>

fun unique_loop :: "Type list \<Rightarrow> (string option \<rightharpoonup> string option) \<Rightarrow> Type list \<Rightarrow> Type list" where
  "unique_loop [] unique_type_names unique_types = unique_types"
| "unique_loop (type # rest) unique_type_names unique_types =
     (if (case unique_type_names (type_name type) of
            None \<Rightarrow> False
          | Some a \<Rightarrow> \<not> truthy (type_api type) \<and> truthy a)
      then unique_loop rest unique_type_names unique_types
      else unique_loop rest (unique_type_names(type_name type \<mapsto> type_api type))
             (unique_types @ [type]))"

definition resolve_unique :: "Type list \<Rightarrow> Type list" where
  "resolve_unique types = rev (unique_loop (rev types) Map.empty [])"

definition parse_xml_types :: "xml \<Rightarrow> string \<Rightarrow> error + Type list" where
  "parse_xml_types root api =
     (case types_loop api (findall [''types'', ''type''] root) [] of
        Inl e \<Rightarrow> Inl e
      | Inr types \<Rightarrow> Inr (resolve_unique types))"

text \<open>The loop over the \<open>param\<close> children of a command.\<close>

fun params_loop :: "xml list \<Rightarrow> (string \<times> string) list \<times> string set \<Rightarrow>
    error + ((string \<times> string) list \<times> string set)" where
  "params_loop [] acc = Inr acc"
| "params_loop (item # rest) (params, requiredTypes) =
     (case xml_parse_type_name_pair (Some item) of
        Inl e \<Rightarrow> Inl e
      | Inr (pname, ptype, requiredType) \<Rightarrow>
          params_loop rest
            (params @ [(pname, ptype)],
             (case requiredType of None \<Rightarrow> requiredTypes | Some r \<Rightarrow> insert r requiredTypes)))"

fun commands_loop :: "xml list \<Rightarrow> (string \<rightharpoonup> Command) \<Rightarrow> error + (string \<rightharpoonup> Command)" where
  "commands_loop [] commands = Inr commands"
| "commands_loop (cmd # rest) commands =
     (case xml_parse_type_name_pair (find [''proto''] cmd) of
        Inl e \<Rightarrow> Inl e
      | Inr (name, rettype, requiredType) \<Rightarrow>
          (case params_loop (findall [''param''] cmd)
                  ([], (case requiredType of None \<Rightarrow> {} | Some r \<Rightarrow> {r})) of
             Inl e \<Rightarrow> Inl e
           | Inr (params, requiredTypes) \<Rightarrow>
               commands_loop rest
                 (commands(name \<mapsto> \<lparr>cmd_name = name, cmd_params = params,
                                      cmd_returntype = rettype,
                                      cmd_requiredTypes = requiredTypes\<rparr>))))"

definition parse_xml_commands :: "xml \<Rightarrow> error + (string \<rightharpoonup> Command)" where
  "parse_xml_commands root = commands_loop (findall [''commands'', ''command''] root) Map.empty"

section \<open>Feature and extension subsets\<close>

text \<open>
  A section of a feature is skipped when the api is \<open>gl\<close> and the section carries a
  \<open>profile\<close> attribute other than the requested profile.
\<close>

definition skipped :: "string \<Rightarrow> string \<Rightarrow> xml \<Rightarrow> bool" where
  "skipped api profile actionSet =
     (api = ''gl'' \<and> get_attr actionSet ''profile'' \<noteq> None
        \<and> get_attr actionSet ''profile'' \<noteq> Some profile)"

text \<open>What a \<open>remove\<close> section does to one subset accumulated so far.\<close>

definition remove_from :: "xml \<Rightarrow> APISubset \<Rightarrow> APISubset" where
  "remove_from actionSet apisubset =
     apisubset\<lparr>subset_types :=
              filter (\<lambda>entry. entry \<notin> set (extract_names actionSet [''type''])) (subset_types apisubset),
            subset_enums :=
              filter (\<lambda>entry. entry \<notin> set (extract_names actionSet [''enum''])) (subset_enums apisubset),
            subset_commands :=
              filter (\<lambda>entry. entry \<notin> set (extract_names actionSet [''command'']))
                (subset_commands apisubset)\<rparr>"

text \<open>
  The inner loop of \<open>parse_xml_features\<close> over the sections of one feature. Its state is
  the list \<open>subsets\<close> built from the earlier features and the three lists of the feature
  being read.
\<close>

fun actions_loop :: "string \<Rightarrow> string \<Rightarrow> xml list \<Rightarrow>
    APISubset list \<times> string list \<times> string list \<times> string list \<Rightarrow>
    APISubset list \<times> string list \<times> string list \<times> string list" where
  "actions_loop api profile [] st = st"
| "actions_loop api profile (actionSet # rest) (subsets, typeList, enumList, commandList) =
     (if skipped api profile actionSet
      then actions_loop api profile rest (subsets, typeList, enumList, commandList)
      else
        (let (typeList', enumList', commandList') =
               (if tag actionSet = ''require''
                then (typeList @ extract_names actionSet [''type''],
                      enumList @ extract_names actionSet [''enum''],
                      commandList @ extract_names actionSet [''command''])
                else (typeList, enumList, commandList));
             subsets' =
               (if tag actionSet = ''remove''
                then map (remove_from actionSet) subsets
                else subsets)
         in actions_loop api profile rest (subsets', typeList', enumList', commandList')))"

text \<open>The outer loop, over the feature elements selected by the path.\<close>

fun features_loop :: "int \<Rightarrow> string \<Rightarrow> string \<Rightarrow> xml list \<Rightarrow> APISubset list \<Rightarrow>
    error + APISubset list" where
  "features_loop int_version api profile [] subsets = Inr subsets"
| "features_loop int_version api profile (feature # rest) subsets =
     (case get_attr feature ''number'' of
        None \<Rightarrow> Inl (KeyError ''number'')
      | Some number \<Rightarrow>
          (case parse_int_version number of
             Inl e \<Rightarrow> Inl e
           | Inr v \<Rightarrow>
               if v > int_version then features_loop int_version api profile rest subsets
               else
                 (case get_attr feature ''name'' of
                    None \<Rightarrow> Inl (KeyError ''name'')
                  | Some featureName \<Rightarrow>
                      (case actions_loop api profile (children feature) (subsets, [], [], []) of
                         (subsets', typeList, enumList, commandList) \<Rightarrow>
                           features_loop int_version api profile rest
                             (subsets' @ [\<lparr>subset_name = drop 3 featureName,
                                           subset_types = typeList,
                                           subset_enums = enumList,
                                           subset_commands = commandList\<rparr>])))))"

text \<open>\<^verbatim>\<open>root.findall("./feature[@api='%s'][@name][@number]" % api)\<close>\<close>

definition feature_elements :: "xml \<Rightarrow> string \<Rightarrow> xml list" where
  "feature_elements root api =
     filter (\<lambda>f. get_attr f ''api'' = Some api \<and> get_attr f ''name'' \<noteq> None
                  \<and> get_attr f ''number'' \<noteq> None)
       (findall [''feature''] root)"

definition parse_xml_features :: "xml \<Rightarrow> int \<Rightarrow> string \<Rightarrow> string \<Rightarrow> error + APISubset list" where
  "parse_xml_features root int_version api profile =
     features_loop int_version api profile (feature_elements root api) []"

text \<open>
  \<^verbatim>\<open>root.find("./extensions/extension[@name='GL_%s']" % name)\<close>, for a name without
  quote characters (the profile grammar only admits \<open>\w+\<close>).
\<close>

definition find_extension :: "xml \<Rightarrow> string \<Rightarrow> xml option" where
  "find_extension root name =
     (case filter (\<lambda>e. get_attr e ''name'' = Some (''GL_'' @ name))
             (findall [''extensions'', ''extension''] root) of
        [] \<Rightarrow> None
      | x # xs \<Rightarrow> Some x)"

definition not_an_extension :: "string \<Rightarrow> string" where
  "not_an_extension name = name @ '' is not an extension''"

text \<open>
  \<open>parse_xml_extensions\<close>: the state is the list of warnings printed so far and the list
  of subsets.
\<close>

fun extensions_loop :: "xml \<Rightarrow> (string \<times> bool) list \<Rightarrow> string list \<times> APISubset list \<Rightarrow>
    string list \<times> APISubset list" where
  "extensions_loop root [] st = st"
| "extensions_loop root ((name, required) # rest) (printed, subsets) =
     (case find_extension root name of
        None \<Rightarrow> extensions_loop root rest (printed @ [not_an_extension name], subsets)
      | Some extension \<Rightarrow>
          extensions_loop root rest
            (printed,
             subsets @ [\<lparr>subset_name = name,
                         subset_types = extract_names extension [''require'', ''type''],
                         subset_enums = extract_names extension [''require'', ''enum''],
                         subset_commands = extract_names extension [''require'', ''command'']\<rparr>]))"

definition parse_xml_extensions :: "xml \<Rightarrow> (string \<times> bool) list \<Rightarrow> string list \<times> APISubset list" where
  "parse_xml_extensions root extensions = extensions_loop root extensions ([], [])"

section \<open>Dependency resolution and output assembly\<close>

text \<open>\<open>type.name in dependencies\<close>, for a set of strings.\<close>

definition name_in :: "string option \<Rightarrow> string set \<Rightarrow> bool" where
  "name_in n S = (case n of None \<Rightarrow> False | Some x \<Rightarrow> x \<in> S)"

fun passthru_loop :: "string set \<Rightarrow> Type list \<Rightarrow> string \<Rightarrow> string" where
  "passthru_loop dependencies [] passthru = passthru"
| "passthru_loop dependencies (type # rest) passthru =
     (if name_in (type_name type) dependencies
      then passthru_loop dependencies rest
             ((if passthru \<noteq> [] then passthru @ [newline] else passthru) @ type_definition type)
      else passthru_loop dependencies rest passthru)"

definition generate_passthru :: "string set \<Rightarrow> Type list \<Rightarrow> string" where
  "generate_passthru dependencies types = passthru_loop dependencies types []"

text \<open>The loop over the enum names of one subset; \<open>enums[enumName]\<close> can raise KeyError.\<close>

fun enum_defines :: "(string \<rightharpoonup> string) \<Rightarrow> string list \<Rightarrow> string \<Rightarrow> error + string" where
  "enum_defines enums [] enumsDecl = Inr enumsDecl"
| "enum_defines enums (enumName # rest) enumsDecl =
     (case enums enumName of
        None \<Rightarrow> Inl (KeyError enumName)
      | Some v \<Rightarrow>
          enum_defines enums rest
            (enumsDecl @ [newline] @ ''#define '' @ enumName @ '' '' @ v))"

fun enums_decl_loop :: "APISubset list \<Rightarrow> (string \<rightharpoonup> string) \<Rightarrow> string \<Rightarrow> error + string" where
  "enums_decl_loop [] enums enumsDecl = Inr enumsDecl"
| "enums_decl_loop (apisubset # rest) enums enumsDecl =
     (if subset_enums apisubset \<noteq> []
      then
        (case enum_defines enums (subset_enums apisubset)
                ((if enumsDecl \<noteq> [] then enumsDecl @ [newline, newline] else enumsDecl)
                   @ ''/* GL_'' @ subset_name apisubset @ '' */'' @ [newline]) of
           Inl e \<Rightarrow> Inl e
         | Inr enumsDecl' \<Rightarrow> enums_decl_loop rest enums enumsDecl')
      else enums_decl_loop rest enums enumsDecl)"

definition generate_enums :: "APISubset list \<Rightarrow> (string \<rightharpoonup> string) \<Rightarrow> error + string" where
  "generate_enums subsets enums = enums_decl_loop subsets enums []"

text \<open>
  \<open>Function(commands[name].returntype, commands[name].name[2:], commands[name].params)\<close>,
  and the inner loop of \<open>generate_functions\<close> over the command names of one subset;
  \<open>commands[name]\<close> is looked up only for a name not yet in \<open>function_set\<close>.
\<close>

definition function_of :: "Command \<Rightarrow> Function" where
  "function_of c =
     \<lparr>fn_name = drop 2 (cmd_name c), fn_params = cmd_params c, fn_returntype = cmd_returntype c\<rparr>"

fun subset_functions_loop :: "(string \<rightharpoonup> Command) \<Rightarrow> string list \<Rightarrow> Function list \<times> string set \<Rightarrow>
    error + (Function list \<times> string set)" where
  "subset_functions_loop commands [] st = Inr st"
| "subset_functions_loop commands (name # rest) (subset_functions, function_set) =
     (if name \<in> function_set
      then subset_functions_loop commands rest (subset_functions, function_set)
      else
        (case commands name of
           None \<Rightarrow> Inl (KeyError name)
         | Some c \<Rightarrow>
             subset_functions_loop commands rest
               (subset_functions @ [function_of c], insert name function_set)))"

fun functions_loop :: "APISubset list \<Rightarrow> (string \<rightharpoonup> Command) \<Rightarrow>
    (string \<times> Function list) list \<times> string set \<Rightarrow> error + (string \<times> Function list) list" where
  "functions_loop [] commands (functions, function_set) = Inr functions"
| "functions_loop (apisubset # rest) commands (functions, function_set) =
     (case subset_functions_loop commands (subset_commands apisubset) ([], function_set) of
        Inl e \<Rightarrow> Inl e
      | Inr (subset_functions, function_set') \<Rightarrow>
          functions_loop rest commands
            (functions @ [(subset_name apisubset, subset_functions)], function_set'))"

definition generate_functions :: "APISubset list \<Rightarrow> (string \<rightharpoonup> Command) \<Rightarrow>
    error + (string \<times> Function list) list" where
  "generate_functions subsets commands = functions_loop subsets commands ([], {})"

text \<open>The first loop of \<open>resolve_type_dependencies\<close>, with its inner loop over the commands.\<close>

fun command_types_loop :: "(string \<rightharpoonup> Command) \<Rightarrow> string list \<Rightarrow> string set \<Rightarrow> error + string set" where
  "command_types_loop commands [] requiredTypes = Inr requiredTypes"
| "command_types_loop commands (cmd # rest) requiredTypes =
     (case commands cmd of
        None \<Rightarrow> Inl (KeyError cmd)
      | Some c \<Rightarrow> command_types_loop commands rest (requiredTypes \<union> cmd_requiredTypes c))"

fun subset_types_loop :: "APISubset list \<Rightarrow> (string \<rightharpoonup> Command) \<Rightarrow> string set \<Rightarrow> error + string set" where
  "subset_types_loop [] commands requiredTypes = Inr requiredTypes"
| "subset_types_loop (apisubset # rest) commands requiredTypes =
     (case command_types_loop commands (subset_commands apisubset)
             (requiredTypes \<union> set (subset_types apisubset)) of
        Inl e \<Rightarrow> Inl e
      | Inr requiredTypes' \<Rightarrow> subset_types_loop rest commands requiredTypes')"

text \<open>The second loop, over the type list; it adds to the set it tests.\<close>

fun dependent_loop :: "Type list \<Rightarrow> string set \<Rightarrow> string set" where
  "dependent_loop [] requiredTypes = requiredTypes"
| "dependent_loop (type # rest) requiredTypes =
     (if name_in (type_name type) requiredTypes \<and> truthy (type_dependent type)
      then dependent_loop rest (insert (the (type_dependent type)) requiredTypes)
      else dependent_loop rest requiredTypes)"

definition resolve_type_dependencies :: "APISubset list \<Rightarrow> Type list \<Rightarrow> (string \<rightharpoonup> Command) \<Rightarrow>
    error + string set" where
  "resolve_type_dependencies subsets types commands =
     (case subset_types_loop subsets commands {} of
        Inl e \<Rightarrow> Inl e
      | Inr requiredTypes \<Rightarrow> Inr (dependent_loop types requiredTypes))"

section \<open>The pipeline\<close>

text \<open>
  \<open>parse_xml\<close> on the parsed document: the lines printed by \<open>parse_xml_extensions\<close> (none
  when an earlier step raised) and either the error that ended the run or the three
  outputs.
\<close>

definition parse_xml :: "xml \<Rightarrow> Version \<Rightarrow> (string \<times> bool) list \<Rightarrow>
    string list \<times> (error + (string \<times> string \<times> (string \<times> Function list) list))" where
  "parse_xml root version extensions =
     (case parse_xml_types root (version_api version) of
        Inl e \<Rightarrow> ([], Inl e)
      | Inr types \<Rightarrow>
     (case parse_xml_enums root (version_api version) of
        Inl e \<Rightarrow> ([], Inl e)
      | Inr enums \<Rightarrow>
     (case parse_xml_commands root of
        Inl e \<Rightarrow> ([], Inl e)
      | Inr commands \<Rightarrow>
     (case parse_xml_features root (int_value version) (version_api version)
             (version_profile version) of
        Inl e \<Rightarrow> ([], Inl e)
      | Inr subsetsGL \<Rightarrow>
     (case parse_xml_extensions root extensions of
        (printed, subsetsEXT) \<Rightarrow>
          (printed,
           (let subsets = subsetsGL @ subsetsEXT
            in case resolve_type_dependencies subsets types commands of
                 Inl e \<Rightarrow> Inl e
               | Inr requiredTypes \<Rightarrow>
                   (let passthru = generate_passthru requiredTypes types
                    in case generate_enums subsets enums of
                         Inl e \<Rightarrow> Inl e
                       | Inr enums' \<Rightarrow>
                           (case generate_functions subsets commands of
                              Inl e \<Rightarrow> Inl e
                            | Inr functions \<Rightarrow> Inr (passthru, enums', functions))))))))))"

section \<open>Notions used to state the properties\<close>

text \<open>\<open>sep.join(xs)\<close>\<close>

fun join :: "string \<Rightarrow> string list \<Rightarrow> string" where
  "join sep [] = []"
| "join sep [x] = x"
| "join sep (x # y # ys) = x @ sep @ join sep (y # ys)"

text \<open>The definitions of the types whose name is in the set, in the order of the type list.\<close>

definition selected_definitions :: "string set \<Rightarrow> Type list \<Rightarrow> string list" where
  "selected_definitions dependencies types =
     map type_definition (filter (\<lambda>t. name_in (type_name t) dependencies) types)"

text \<open>
  The passthrough text in the words of the specification: the selected definitions,
  joined by a separator. A blank line between two definitions is the separator of two
  newline characters.
\<close>

definition passthru_spec :: "string \<Rightarrow> string set \<Rightarrow> Type list \<Rightarrow> string" where
  "passthru_spec sep dependencies types = join sep (selected_definitions dependencies types)"

text \<open>\<open>Type(None, n, d, None)\<close>: an api-agnostic type without a dependent.\<close>

definition plain_type :: "string \<Rightarrow> string \<Rightarrow> Type" where
  "plain_type n d =
     \<lparr>type_api = None, type_name = Some n, type_definition = d, type_dependent = None\<rparr>"

text \<open>The version pattern after its second digit: \<^verbatim>\<open>\s*(core|compatibility|es|)\s*$\<close>\<close>

definition version_tail :: regex where
  "version_tail =
     seqs [StarC is_space,
           Group (Alt (Lit ''core'') (Alt (Lit ''compatibility'') (Alt (Lit ''es'') Eps))),
           StarC is_space, Eol]"


text \<open>The three diagnostics of \<open>parse_profile\<close>, and the line each is reported for.\<close>

fun is_profile_error :: "error \<Rightarrow> bool" where
  "is_profile_error (DuplicateVersion n) = True"
| "is_profile_error (DuplicateExtension n) = True"
| "is_profile_error (SyntaxError n l) = True"
| "is_profile_error e = False"

fun error_line :: "error \<Rightarrow> nat" where
  "error_line (DuplicateVersion n) = n"
| "error_line (DuplicateExtension n) = n"
| "error_line (SyntaxError n l) = n"
| "error_line e = 0"

text \<open>Both components of the version are between 0 and 9.\<close>

definition single_digits :: "Version \<Rightarrow> bool" where
  "single_digits v = (0 \<le> version_major v \<and> version_major v \<le> 9
     \<and> 0 \<le> version_minor v \<and> version_minor v \<le> 9)"

text \<open>
  A line \<open>version<ws><major>.<minor><rest>\<close>, from the white space \<open>ws\<close>, the two components
  and whatever follows.
\<close>

definition version_line :: "string \<Rightarrow> string \<Rightarrow> string \<Rightarrow> string \<Rightarrow> string" where
  "version_line ws major minor rest = ''version'' @ ws @ major @ ''.'' @ minor @ rest"

text \<open>The elements of a list in the order of their first occurrence.\<close>

definition first_occurrences :: "'a list \<Rightarrow> 'a list" where
  "first_occurrences xs = rev (remdups (rev xs))"

text \<open>
  The command names of the subset at index \<open>i\<close> that occur in no earlier subset, each at
  its first occurrence.
\<close>

definition kept_commands :: "APISubset list \<Rightarrow> nat \<Rightarrow> string list" where
  "kept_commands subsets i =
     first_occurrences
       (filter (\<lambda>n. \<forall>j<i. n \<notin> set (subset_commands (subsets ! j)))
          (subset_commands (subsets ! i)))"

text \<open>
  The function groups, stated subset by subset: the name of the subset with the functions
  of its kept commands.
\<close>

definition function_groups :: "APISubset list \<Rightarrow> (string \<rightharpoonup> Command) \<Rightarrow> (string \<times> Function list) list" where
  "function_groups subsets commands =
     map (\<lambda>i. (subset_name (subsets ! i),
                map (\<lambda>n. function_of (the (commands n))) (kept_commands subsets i)))
       [0 ..< length subsets]"

text \<open>The same groups, by recursion over the subsets with the set of names seen so far.\<close>

fun groups_from :: "(string \<rightharpoonup> Command) \<Rightarrow> string set \<Rightarrow> APISubset list \<Rightarrow> (string \<times> Function list) list" where
  "groups_from commands seen [] = []"
| "groups_from commands seen (s # ss) =
     (subset_name s,
      map (\<lambda>n. function_of (the (commands n)))
        (first_occurrences (filter (\<lambda>n. n \<notin> seen) (subset_commands s))))
     # groups_from commands (seen \<union> set (subset_commands s)) ss"

text \<open>
  The types referenced directly: the types each subset lists and the \<open>requiredTypes\<close> of
  each command it lists.
\<close>

definition direct_types :: "APISubset list \<Rightarrow> (string \<rightharpoonup> Command) \<Rightarrow> string set" where
  "direct_types subsets commands =
     (\<Union>s\<in>set subsets. set (subset_types s)
        \<union> (\<Union>c\<in>set (subset_commands s). cmd_requiredTypes (the (commands c))))"

text \<open>The dependents declared by the types of the list whose name is in the set \<open>R\<close>.\<close>

definition dependents_of :: "Type list \<Rightarrow> string set \<Rightarrow> string set" where
  "dependents_of types R =
     set (map (\<lambda>t. the (type_dependent t))
            (filter (\<lambda>t. name_in (type_name t) R \<and> truthy (type_dependent t)) types))"

text \<open>
  One level of dependent expansion, in the words of the specification: the set and the
  dependents of its members, and nothing more.
\<close>

definition one_hop :: "Type list \<Rightarrow> string set \<Rightarrow> string set" where
  "one_hop types R = R \<union> dependents_of types R"

text \<open>Every dependent declared in the type list.\<close>

definition all_dependents :: "Type list \<Rightarrow> string set" where
  "all_dependents types =
     set (map (\<lambda>t. the (type_dependent t)) (filter (\<lambda>t. truthy (type_dependent t)) types))"

text \<open>
  No entry that declares a dependent is followed by an entry that is named like this
  dependent and declares a dependent itself.
\<close>

fun dependents_first :: "Type list \<Rightarrow> bool" where
  "dependents_first [] = True"
| "dependents_first (t # ts) =
     ((truthy (type_dependent t) \<longrightarrow>
         list_all (\<lambda>u. \<not> (type_name u = type_dependent t \<and> truthy (type_dependent u))) ts)
      \<and> dependents_first ts)"

text \<open>\<open>Type(None, n, '', d)\<close>: a type with a dependent.\<close>

definition dependent_type :: "string \<Rightarrow> string \<Rightarrow> Type" where
  "dependent_type n d =
     \<lparr>type_api = None, type_name = Some n, type_definition = [], type_dependent = Some d\<rparr>"

text \<open>A subset that lists types only.\<close>

definition types_subset :: "string list \<Rightarrow> APISubset" where
  "types_subset ts = \<lparr>subset_name = ''VERSION_1_0'', subset_types = ts, subset_enums = [],
     subset_commands = []\<rparr>"





text \<open>The sections of a feature that the profile condition does not skip.\<close>

definition active_sections :: "string \<Rightarrow> string \<Rightarrow> xml \<Rightarrow> xml list" where
  "active_sections api profile feature =
     filter (\<lambda>a. \<not> skipped api profile a) (children feature)"

text \<open>
  The names of one kind (\<open>type\<close>, \<open>enum\<close> or \<open>command\<close>) that the \<open>require\<close> sections of a
  feature list, in document order.
\<close>

definition required_names :: "string \<Rightarrow> string \<Rightarrow> string \<Rightarrow> xml \<Rightarrow> string list" where
  "required_names api profile kind feature =
     concat (map (\<lambda>a. extract_names a [kind])
               (filter (\<lambda>a. tag a = ''require'') (active_sections api profile feature)))"

text \<open>The \<open>remove\<close> sections of a list of features that are not skipped, in document order.\<close>

definition remove_sections :: "string \<Rightarrow> string \<Rightarrow> xml list \<Rightarrow> xml list" where
  "remove_sections api profile features =
     concat (map (\<lambda>f. filter (\<lambda>a. tag a = ''remove'') (active_sections api profile f)) features)"

text \<open>The subset of a feature as its own \<open>require\<close> sections make it.\<close>

definition own_subset :: "string \<Rightarrow> string \<Rightarrow> xml \<Rightarrow> APISubset" where
  "own_subset api profile feature =
     \<lparr>subset_name = drop 3 (the (get_attr feature ''name'')),
      subset_types = required_names api profile ''type'' feature,
      subset_enums = required_names api profile ''enum'' feature,
      subset_commands = required_names api profile ''command'' feature\<rparr>"

text \<open>
  The subsets of a list of features: the own subset of each, after every \<open>remove\<close> section
  of the features that follow it.
\<close>

fun feature_subsets :: "string \<Rightarrow> string \<Rightarrow> xml list \<Rightarrow> APISubset list" where
  "feature_subsets api profile [] = []"
| "feature_subsets api profile (f # fs) =
     fold remove_from (remove_sections api profile fs) (own_subset api profile f)
     # feature_subsets api profile fs"

text \<open>The \<open>number\<close> attribute of the feature is accepted by \<open>parse_int_version\<close>.\<close>

definition number_parses :: "xml \<Rightarrow> bool" where
  "number_parses feature =
     (case get_attr feature ''number'' of
        None \<Rightarrow> False
      | Some number \<Rightarrow> \<not> isl (parse_int_version number))"

text \<open>The number of the feature is at most the requested version.\<close>

definition in_version :: "int \<Rightarrow> xml \<Rightarrow> bool" where
  "in_version int_version feature =
     (case get_attr feature ''number'' of
        None \<Rightarrow> False
      | Some number \<Rightarrow>
          (case parse_int_version number of
             Inl e \<Rightarrow> False
           | Inr v \<Rightarrow> v \<le> int_version))"


text \<open>An element with a \<open>name\<close> attribute only.\<close>

definition named :: "string \<Rightarrow> string \<Rightarrow> xml" where
  "named t n = Element t [(''name'', n)] None None []"

text \<open>A \<open>require\<close> or \<open>remove\<close> section without attributes.\<close>

definition section_of :: "string \<Rightarrow> xml list \<Rightarrow> xml" where
  "section_of t entries = Element t [] None None entries"

text \<open>A \<open>feature\<close> element of the api \<open>gl\<close>.\<close>

definition feature_of :: "string \<Rightarrow> string \<Rightarrow> xml list \<Rightarrow> xml" where
  "feature_of n number sections =
     Element ''feature'' [(''api'', ''gl''), (''name'', n), (''number'', number)] None None sections"

text \<open>A registry document with the given top-level elements.\<close>

definition registry :: "xml list \<Rightarrow> xml" where
  "registry elements = Element ''registry'' [] None None elements"




definition require_then_remove :: xml where
  "require_then_remove =
     feature_of ''GL_VERSION_1_1'' ''1.1''
       [section_of ''require'' [named ''type'' ''A'', named ''type'' ''B'', named ''type'' ''C''],
        section_of ''remove'' [named ''type'' ''B'']]"

definition earlier_feature :: xml where
  "earlier_feature =
     feature_of ''GL_VERSION_1_0'' ''1.0''
       [section_of ''require'' [named ''type'' ''B'', named ''type'' ''D'']]"

text \<open>The requested extension has an entry in the document.\<close>

definition known :: "xml \<Rightarrow> string \<times> bool \<Rightarrow> bool" where
  "known root e = (find_extension root (fst e) \<noteq> None)"

text \<open>The subset of an extension that has an entry: the names its \<open>require\<close> sections list.\<close>

definition extension_subset :: "xml \<Rightarrow> string \<Rightarrow> APISubset" where
  "extension_subset root name =
     \<lparr>subset_name = name,
      subset_types = extract_names (the (find_extension root name)) [''require'', ''type''],
      subset_enums = extract_names (the (find_extension root name)) [''require'', ''enum''],
      subset_commands = extract_names (the (find_extension root name)) [''require'', ''command'']\<rparr>"

text \<open>A document that declares the single extension \<open>GL_EXT_foo\<close>.\<close>

definition extensions_document :: xml where
  "extensions_document =
     Element ''registry'' [] None None
       [Element ''extensions'' [] None None
          [Element ''extension'' [(''name'', ''GL_EXT_foo'')] None None
             [Element ''require'' [] None None
                [Element ''command'' [(''name'', ''glBar'')] None None []]]]]"

text \<open>
  A document whose only feature requires the enum \<open>GL_FOO\<close>, which no \<open>enums\<close> section
  declares.
\<close>

definition undeclared_enum_document :: xml where
  "undeclared_enum_document =
     Element ''registry'' [] None None
       [Element ''feature'' [(''api'', ''gl''), (''name'', ''GL_VERSION_1_0''), (''number'', ''1.0'')]
          None None
          [Element ''require'' [] None None
             [Element ''enum'' [(''name'', ''GL_FOO'')] None None []]]]"

text \<open>\<open>Version('1', '0', '')\<close>\<close>

definition gl_1_0 :: Version where
  "gl_1_0 = \<lparr>version_api = ''gl'', version_major = 1, version_minor = 0, version_profile = []\<rparr>"

section \<open>Example data\<close>

definition example_command :: "string \<Rightarrow> Command" where
  "example_command n =
     \<lparr>cmd_name = n, cmd_params = [], cmd_returntype = ''void'', cmd_requiredTypes = {}\<rparr>"

definition example_commands :: "string \<rightharpoonup> Command" where
  "example_commands =
     [''glA'' \<mapsto> example_command ''glA'', ''glB'' \<mapsto> example_command ''glB'',
      ''glC'' \<mapsto> example_command ''glC'']"

definition example_subsets :: "APISubset list" where
  "example_subsets =
     [\<lparr>subset_name = ''VERSION_1_0'', subset_types = [], subset_enums = [],
        subset_commands = [''glA'', ''glB'', ''glA'']\<rparr>,
      \<lparr>subset_name = ''EXT_x'', subset_types = [], subset_enums = [],
        subset_commands = [''glB'', ''glC'']\<rparr>]"

section \<open>The passthrough text\<close>

lemma join_Cons: "join sep (x # xs) = x @ concat (map (\<lambda>d. sep @ d) xs)"
  by (induction xs arbitrary: x) auto

lemma passthru_loop_nonempty:
  "acc \<noteq> [] \<Longrightarrow>
   passthru_loop deps ts acc =
     acc @ concat (map (\<lambda>d. [newline] @ d) (selected_definitions deps ts))"
  by (induction ts arbitrary: acc) (auto simp: selected_definitions_def)

lemma passthru_loop_empty:
  "passthru_loop deps ts [] =
     join [newline] (dropWhile (\<lambda>d. d = []) (selected_definitions deps ts))"
proof (induction ts)
  case Nil
  show ?case by (simp add: selected_definitions_def)
next
  case (Cons t ts)
  show ?case
  proof (cases "name_in (type_name t) deps")
    case False
    with Cons show ?thesis by (simp add: selected_definitions_def)
  next
    case sel: True
    show ?thesis
    proof (cases "type_definition t = []")
      case True
      with sel Cons show ?thesis by (simp add: selected_definitions_def)
    next
      case False
      with sel show ?thesis
        using passthru_loop_nonempty [of "type_definition t" deps ts]
        by (simp add: selected_definitions_def join_Cons comp_def)
    qed
  qed
qed

text \<open>
  C4, as the code has it. \<open>generate_passthru\<close> returns the definitions of the types whose
  name is in the required-type set, in the order of the type list, joined by one newline
  character (not by a blank line); definitions that are empty and come before the first
  non-empty one leave no trace, because the separator is only written once the text is
  non-empty.
\<close>

theorem generate_passthru_newline_joined:
  "generate_passthru dependencies types =
     join [newline] (dropWhile (\<lambda>d. d = []) (selected_definitions dependencies types))"
  by (simp add: generate_passthru_def passthru_loop_empty)

theorem generate_passthru_newline_joined_witness:
  "generate_passthru {''A'', ''C''}
     [plain_type ''A'' [], plain_type ''B'' ''b;'', plain_type ''C'' ''c;'', plain_type ''A'' ''a;'']
     = ''c;'' @ [newline] @ ''a;''"
  using generate_passthru_newline_joined [of "{''A'', ''C''}"
    "[plain_type ''A'' [], plain_type ''B'' ''b;'', plain_type ''C'' ''c;'', plain_type ''A'' ''a;'']"]
  by (simp add: selected_definitions_def name_in_def plain_type_def)

text \<open>
  C4 as stated fails: for two required types with the definitions \<open>a;\<close> and \<open>b;\<close> the code
  returns \<open>a;\<close>, one newline, \<open>b;\<close>, with no blank line between them. Nor is the text the
  definitions joined by one newline in every case: an empty definition in front leaves no
  separator behind.
\<close>

theorem generate_passthru_blank_line_counterexample:
  "generate_passthru {''A'', ''B''} [plain_type ''A'' ''a;'', plain_type ''B'' ''b;'']
     = ''a;'' @ [newline] @ ''b;''
   \<and> passthru_spec [newline, newline] {''A'', ''B''}
       [plain_type ''A'' ''a;'', plain_type ''B'' ''b;'']
     = ''a;'' @ [newline, newline] @ ''b;''
   \<and> generate_passthru {''A'', ''B''} [plain_type ''A'' ''a;'', plain_type ''B'' ''b;'']
     \<noteq> passthru_spec [newline, newline] {''A'', ''B''}
         [plain_type ''A'' ''a;'', plain_type ''B'' ''b;'']
   \<and> generate_passthru {''A'', ''B''} [plain_type ''A'' [], plain_type ''B'' ''b;''] = ''b;''
   \<and> passthru_spec [newline] {''A'', ''B''} [plain_type ''A'' [], plain_type ''B'' ''b;'']
     = [newline] @ ''b;''"
  by (simp add: generate_passthru_def passthru_spec_def selected_definitions_def name_in_def
      plain_type_def)

section \<open>The regular expressions, declaratively\<close>

text \<open>
  What the successes of each construct are, as a set: the matcher read as a relation
  between the subject and the rest left after a match.
\<close>

lemma in_run_Lit:
  "x \<in> set (run (Lit l) (caps, s)) \<longleftrightarrow> (\<exists>r. s = l @ r \<and> x = (caps, r))"
proof
  assume "x \<in> set (run (Lit l) (caps, s))"
  then have t: "take (length l) s = l" and x: "x = (caps, drop (length l) s)"
    by (auto split: if_splits)
  from t have "s = l @ drop (length l) s" by (metis append_take_drop_id)
  with x show "\<exists>r. s = l @ r \<and> x = (caps, r)" by blast
next
  assume "\<exists>r. s = l @ r \<and> x = (caps, r)"
  then show "x \<in> set (run (Lit l) (caps, s))" by auto
qed

lemma in_run_Cls:
  "x \<in> set (run (Cls P) (caps, s)) \<longleftrightarrow> (\<exists>c r. s = c # r \<and> P c \<and> x = (caps, r))"
  by (cases s) auto

lemma le_takeWhile_iff:
  "k \<le> length (takeWhile P s) \<longleftrightarrow> k \<le> length s \<and> list_all P (take k s)"
proof (induction s arbitrary: k)
  case Nil
  show ?case by simp
next
  case (Cons c s)
  show ?case by (cases k) (auto simp: Cons.IH)
qed

lemma in_run_StarC:
  "x \<in> set (run (StarC P) (caps, s)) \<longleftrightarrow>
     (\<exists>pre r. s = pre @ r \<and> list_all P pre \<and> x = (caps, r))"
proof
  assume "x \<in> set (run (StarC P) (caps, s))"
  then obtain k where k: "k \<le> length (takeWhile P s)" and x: "x = (caps, drop k s)"
    by (auto simp del: upt_Suc simp add: less_Suc_eq_le)
  from k have "list_all P (take k s)" by (simp add: le_takeWhile_iff)
  moreover have "s = take k s @ drop k s" by simp
  ultimately show "\<exists>pre r. s = pre @ r \<and> list_all P pre \<and> x = (caps, r)"
    using x by blast
next
  assume "\<exists>pre r. s = pre @ r \<and> list_all P pre \<and> x = (caps, r)"
  then obtain pre r where s: "s = pre @ r" and p: "list_all P pre" and x: "x = (caps, r)"
    by blast
  from s p have "length pre \<le> length (takeWhile P s)"
    by (simp add: le_takeWhile_iff)
  moreover from s have "drop (length pre) s = r" by simp
  ultimately show "x \<in> set (run (StarC P) (caps, s))"
    using x by (auto simp del: upt_Suc simp add: image_iff less_Suc_eq_le intro!: bexI [of _ "length pre"])
qed

lemma in_run_PlusC:
  "x \<in> set (run (PlusC P) (caps, s)) \<longleftrightarrow>
     (\<exists>pre r. s = pre @ r \<and> pre \<noteq> [] \<and> list_all P pre \<and> x = (caps, r))"
proof
  assume "x \<in> set (run (PlusC P) (caps, s))"
  then obtain k where k: "k \<le> length (takeWhile P s)" and k1: "1 \<le> k"
    and x: "x = (caps, drop k s)"
    by (auto simp del: upt_Suc simp add: less_Suc_eq_le)
  from k have kk: "k \<le> length s" "list_all P (take k s)" by (simp_all add: le_takeWhile_iff)
  moreover have "s = take k s @ drop k s" by simp
  moreover from k1 kk have "take k s \<noteq> []" by auto
  ultimately show "\<exists>pre r. s = pre @ r \<and> pre \<noteq> [] \<and> list_all P pre \<and> x = (caps, r)"
    using x by blast
next
  assume "\<exists>pre r. s = pre @ r \<and> pre \<noteq> [] \<and> list_all P pre \<and> x = (caps, r)"
  then obtain pre r where s: "s = pre @ r" and ne: "pre \<noteq> []"
    and p: "list_all P pre" and x: "x = (caps, r)"
    by blast
  from s p have "length pre \<le> length (takeWhile P s)"
    by (simp add: le_takeWhile_iff)
  moreover from s have "drop (length pre) s = r" by simp
  moreover from ne have "1 \<le> length pre" by (cases pre) auto
  ultimately show "x \<in> set (run (PlusC P) (caps, s))"
    using x by (auto simp del: upt_Suc simp add: image_iff less_Suc_eq_le intro!: bexI [of _ "length pre"])
qed

lemma in_run_Seq:
  "x \<in> set (run (Seq a b) st) \<longleftrightarrow> (\<exists>m\<in>set (run a st). x \<in> set (run b m))"
  by auto

lemma in_run_Alt:
  "x \<in> set (run (Alt a b) st) \<longleftrightarrow> x \<in> set (run a st) \<or> x \<in> set (run b st)"
  by auto

lemma in_run_Group:
  "x \<in> set (run (Group a) (caps, s)) \<longleftrightarrow>
     (\<exists>caps' r. (caps', r) \<in> set (run a (caps, s))
        \<and> x = (caps' @ [take (length s - length r) s], r))"
  by (auto simp: image_iff) force

lemma in_run_Eps: "x \<in> set (run Eps st) \<longleftrightarrow> x = st"
  by simp

lemma in_run_Eol:
  "x \<in> set (run Eol (caps, s)) \<longleftrightarrow> (s = [] \<or> s = [newline]) \<and> x = (caps, s)"
  by auto

lemma re_match_Some:
  "re_match p s = Some caps \<Longrightarrow> \<exists>r. (caps, r) \<in> set (run p ([], s))"
  by (auto simp: re_match_def split: list.splits)

lemma re_match_None: "re_match p s = None \<longleftrightarrow> set (run p ([], s)) = {}"
  by (auto simp: re_match_def split: list.splits)

section \<open>The profile parser\<close>

lemma space_not_digit: "is_space c \<Longrightarrow> \<not> is_digit c"
  by (auto simp: is_space_def is_digit_def)

lemma hd_spaces_not_digit:
  "list_all is_space pre \<Longrightarrow> s = pre @ r \<Longrightarrow> r = [] \<or> \<not> is_digit (hd r) \<Longrightarrow>
   s = [] \<or> \<not> is_digit (hd s)"
  by (cases pre) (auto simp: space_not_digit)

lemma version_tail_shape:
  assumes "x \<in> set (run version_tail (caps, s))"
  shows "(s = [] \<or> \<not> is_digit (hd s)) \<and> (\<exists>g r. x = (caps @ [g], r))"
proof -
  let ?G = "Group (Alt (Lit ''core'') (Alt (Lit ''compatibility'') (Alt (Lit ''es'') Eps)))"
  from assms obtain m1 m2 m3 where
    m1: "m1 \<in> set (run (StarC is_space) (caps, s))"
    and m2: "m2 \<in> set (run ?G m1)"
    and m3: "m3 \<in> set (run (StarC is_space) m2)"
    and x: "x \<in> set (run Eol m3)"
    unfolding version_tail_def by (simp only: seqs.simps in_run_Seq) blast
  from m1 obtain pre1 r1 where s: "s = pre1 @ r1" and p1: "list_all is_space pre1"
    and m1': "m1 = (caps, r1)"
    by (auto simp only: in_run_StarC)
  from m2 obtain g r2 where m2': "m2 = (caps @ [g], r2)"
    and r2: "r1 = ''core'' @ r2 \<or> r1 = ''compatibility'' @ r2 \<or> r1 = ''es'' @ r2 \<or> r1 = r2"
    unfolding m1' by (auto simp del: run.simps simp add: in_run_Group in_run_Alt in_run_Lit in_run_Eps)
  from m3 obtain pre3 r3 where r3: "r2 = pre3 @ r3" and p3: "list_all is_space pre3"
    and m3': "m3 = (caps @ [g], r3)"
    unfolding m2' by (auto simp only: in_run_StarC)
  from x have e: "r3 = [] \<or> r3 = [newline]" and x3: "x = (caps @ [g], r3)"
    unfolding m3' by (auto simp only: in_run_Eol)
  from e have "r3 = [] \<or> \<not> is_digit (hd r3)"
    by (auto simp: newline_def is_digit_def)
  with p3 r3 have "r2 = [] \<or> \<not> is_digit (hd r2)"
    using hd_spaces_not_digit by blast
  with r2 have "r1 = [] \<or> \<not> is_digit (hd r1)"
    by (auto simp: is_digit_def)
  with p1 s have "s = [] \<or> \<not> is_digit (hd s)"
    using hd_spaces_not_digit by blast
  with x3 show ?thesis by blast
qed

lemma version_pattern_shape:
  assumes "(caps, r) \<in> set (run version_pattern ([], line))"
  shows "\<exists>ws d1 d2 rest g3.
           line = ''version'' @ ws @ [d1] @ ''.'' @ [d2] @ rest
           \<and> ws \<noteq> [] \<and> list_all is_space ws \<and> is_digit d1 \<and> is_digit d2
           \<and> (rest = [] \<or> \<not> is_digit (hd rest))
           \<and> caps = [[d1], [d2], g3]"
proof -
  have vp: "version_pattern =
      Seq (Lit ''version'') (Seq (PlusC is_space) (Seq (Group (Cls is_digit))
        (Seq (Lit ''.'') (Seq (Group (Cls is_digit)) version_tail))))"
    by (simp add: version_pattern_def version_tail_def)
  from assms obtain ws d1 d2 rest where
    line: "line = ''version'' @ ws @ d1 # ''.'' @ d2 # rest"
    and ws: "ws \<noteq> []" "list_all is_space ws" and d: "is_digit d1" "is_digit d2"
    and t: "(caps, r) \<in> set (run version_tail ([[d1], [d2]], rest))"
    unfolding vp by (auto simp del: run.simps simp add: in_run_Seq in_run_Lit in_run_PlusC in_run_Group in_run_Cls)
  from version_tail_shape [OF t] obtain g where
    "rest = [] \<or> \<not> is_digit (hd rest)" "caps = [[d1], [d2], g]"
    by auto
  with line ws d show ?thesis by auto
qed

lemma py_int_digit:
  "is_digit d \<Longrightarrow> \<exists>k. py_int [d] = Some k \<and> 0 \<le> k \<and> k \<le> 9"
  by (auto simp: py_int_def is_digit_def)

lemma Version_init_digits:
  assumes "is_digit d1" "is_digit d2"
  shows "\<exists>v. Version_init [d1] [d2] p = Inr v \<and> single_digits v"
proof -
  from py_int_digit [OF assms(1)] obtain a where a: "py_int [d1] = Some a" "0 \<le> a" "a \<le> 9"
    by blast
  from py_int_digit [OF assms(2)] obtain b where b: "py_int [d2] = Some b" "0 \<le> b" "b \<le> 9"
    by blast
  from a b show ?thesis
    by (simp add: Version_init_def single_digits_def Let_def)
qed

lemma version_match_groups:
  assumes "re_match version_pattern l = Some m"
  shows "\<exists>d1 d2 g3. m = [[d1], [d2], g3] \<and> is_digit d1 \<and> is_digit d2"
proof -
  from re_match_Some [OF assms] obtain r where "(m, r) \<in> set (run version_pattern ([], l))"
    by blast
  from version_pattern_shape [OF this] show ?thesis by blast
qed

lemma profile_line_version_first:
  assumes "re_match version_pattern l = Some m" "st_version st = None"
  shows "\<exists>v. profile_line st n l = Inr (st\<lparr>st_version := Some v\<rparr>) \<and> single_digits v"
proof -
  from version_match_groups [OF assms(1)] obtain d1 d2 g3 where
    m: "m = [[d1], [d2], g3]" and d: "is_digit d1" "is_digit d2"
    by blast
  from Version_init_digits [OF d] obtain v1 where
    v1: "Version_init [d1] [d2] (if [d1] = ''1'' then ''es1'' else ''es2'') = Inr v1" "single_digits v1"
    by blast
  from Version_init_digits [OF d] obtain v2 where
    v2: "Version_init [d1] [d2] g3 = Inr v2" "single_digits v2"
    by blast
  show ?thesis
    using assms v1 v2 by (auto simp: profile_line_def m group_def)
qed

lemma profile_line_version_again:
  assumes "re_match version_pattern l = Some m" "st_version st \<noteq> None"
  shows "profile_line st n l = Inl (DuplicateVersion n)"
  using assms by (simp add: profile_line_def)

lemma profile_line_Inr:
  assumes "profile_line st n l = Inr st'"
  shows "st_version st' = st_version st
     \<or> (st_version st = None \<and> (\<exists>v. st_version st' = Some v \<and> single_digits v))"
proof (cases "re_match version_pattern l")
  case None
  with assms show ?thesis
    by (auto simp: profile_line_def split: option.splits if_splits)
next
  case (Some m)
  show ?thesis
  proof (cases "st_version st = None")
    case True
    from profile_line_version_first [OF Some True, of n] assms True show ?thesis by auto
  next
    case False
    from profile_line_version_again [OF Some False, of n] assms show ?thesis by simp
  qed
qed

lemma profile_line_Inl:
  assumes "profile_line st n l = Inl e"
  shows "is_profile_error e \<and> error_line e = n"
proof (cases "re_match version_pattern l")
  case None
  with assms show ?thesis
    by (auto simp: profile_line_def split: option.splits if_splits)
next
  case (Some m)
  show ?thesis
  proof (cases "st_version st = None")
    case True
    from profile_line_version_first [OF Some True, of n] assms show ?thesis by auto
  next
    case False
    from profile_line_version_again [OF Some False, of n] assms show ?thesis by auto
  qed
qed

lemma profile_loop_fails_at:
  assumes pres: "\<And>st n l st'. Q st \<Longrightarrow> profile_line st n l = Inr st' \<Longrightarrow> Q st'"
    and fails: "\<And>st n. Q st \<Longrightarrow> profile_line st n (ls ! j) = Inl (E n)"
    and "Q st" "j < length ls"
  shows "\<exists>e. profile_loop st n ls = Inl e \<and> is_profile_error e
           \<and> n \<le> error_line e \<and> error_line e \<le> n + j
           \<and> ((\<exists>st'. profile_loop st n (take j ls) = Inr st') \<longrightarrow> e = E (n + j))"
  using assms(2-)
proof (induction ls arbitrary: st n j)
  case Nil
  then show ?case by simp
next
  case (Cons l ls)
  show ?case
  proof (cases "profile_line st n l")
    case (Inl e)
    from profile_line_Inl [OF Inl] have e: "is_profile_error e" "error_line e = n" by auto
    show ?thesis
    proof (cases j)
      case 0
      with Cons.prems(1) [OF Cons.prems(2), of n] Inl have "e = E n" by simp
      with Inl e 0 show ?thesis by simp
    next
      case (Suc j')
      with Inl e show ?thesis by simp
    qed
  next
    case (Inr st')
    from pres [OF Cons.prems(2) Inr] have q: "Q st'" .
    show ?thesis
    proof (cases j)
      case 0
      with Cons.prems(1) [OF Cons.prems(2), of n] Inr show ?thesis by simp
    next
      case (Suc j')
      with Cons.prems have f: "\<And>st n. Q st \<Longrightarrow> profile_line st n (ls ! j') = Inl (E n)"
        and j': "j' < length ls"
        by auto
      from Cons.IH [OF f q j', of "Suc n"] obtain e where
        "profile_loop st' (Suc n) ls = Inl e" "is_profile_error e"
        "Suc n \<le> error_line e" "error_line e \<le> Suc n + j'"
        "(\<exists>st''. profile_loop st' (Suc n) (take j' ls) = Inr st'') \<longrightarrow> e = E (Suc n + j')"
        by blast
      with Inr Suc show ?thesis by simp
    qed
  qed
qed





lemma spaces_then_digit_unique:
  assumes "list_all is_space xs" "list_all is_space ys" "is_digit a" "is_digit b"
    and "xs @ a # u = ys @ b # v"
  shows "xs = ys \<and> a = b \<and> u = v"
proof -
  from assms(3,4) have nsp: "\<not> is_space a" "\<not> is_space b"
    using space_not_digit by blast+
  have "takeWhile is_space (xs @ a # u) = xs"
    using assms(1) nsp by (simp add: takeWhile_tail list_all_iff)
  moreover have "takeWhile is_space (ys @ b # v) = ys"
    using assms(2) nsp by (simp add: takeWhile_tail list_all_iff)
  ultimately have "xs = ys" using assms(5) by simp
  with assms(5) show ?thesis by simp
qed

lemma dot_not_digit: "\<not> is_digit CHR ''.''"
  by (simp add: is_digit_def)

lemma version_pattern_rejects:
  assumes ws: "list_all is_space ws"
    and ne: "major \<noteq> []" "minor \<noteq> []"
    and dg: "list_all is_digit major" "list_all is_digit minor"
    and two: "2 \<le> length major \<or> 2 \<le> length minor"
  shows "re_match version_pattern (version_line ws major minor rest) = None"
proof (rule ccontr)
  assume "re_match version_pattern (version_line ws major minor rest) \<noteq> None"
  then obtain caps where "re_match version_pattern (version_line ws major minor rest) = Some caps"
    by auto
  from re_match_Some [OF this] obtain r where
    "(caps, r) \<in> set (run version_pattern ([], version_line ws major minor rest))"
    by blast
  from version_pattern_shape [OF this] obtain ws' d1 d2 rest' where
    eq: "version_line ws major minor rest = ''version'' @ ws' @ [d1] @ ''.'' @ [d2] @ rest'"
    and ws': "list_all is_space ws'" and d: "is_digit d1" "is_digit d2"
    and r': "rest' = [] \<or> \<not> is_digit (hd rest')"
    by blast
  from ne dg obtain m1 mt where major: "major = m1 # mt" and m1: "is_digit m1"
    and mt: "list_all is_digit mt"
    by (cases major) auto
  from ne dg obtain n1 nt where minor: "minor = n1 # nt" and n1: "is_digit n1"
    and nt: "list_all is_digit nt"
    by (cases minor) auto
  from eq have "ws @ m1 # (mt @ ''.'' @ minor @ rest) = ws' @ d1 # (''.'' @ [d2] @ rest')"
    by (simp add: version_line_def major)
  from spaces_then_digit_unique [OF ws ws' m1 d(1) this]
  have tl: "mt @ ''.'' @ minor @ rest = ''.'' @ [d2] @ rest'" by simp
  have mt_nil: "mt = []"
  proof (cases mt)
    case Nil
    then show ?thesis .
  next
    case (Cons c cs)
    with tl mt dot_not_digit show ?thesis by auto
  qed
  with tl minor have nt_rest: "nt @ rest = rest'" by simp
  from two mt_nil major minor obtain c cs where "nt = c # cs" by (cases nt) auto
  with nt nt_rest r' show False by auto
qed

lemma extension_pattern_rejects:
  "re_match extension_pattern (version_line ws major minor rest) = None"
  by (simp add: re_match_def extension_pattern_def version_line_def)

lemma comment_pattern_rejects:
  "re_match comment_pattern (version_line ws major minor rest) = None"
  by (simp add: re_match_def comment_pattern_def version_line_def is_space_def)

lemma profile_loop_single_digits:
  assumes "profile_loop st n ls = Inr st'" "st_version st' = Some v"
    and "\<And>w. st_version st = Some w \<Longrightarrow> single_digits w"
  shows "single_digits v"
  using assms
proof (induction ls arbitrary: st n)
  case Nil
  then show ?case by simp
next
  case (Cons l ls)
  from Cons.prems(1) obtain st1 where l: "profile_line st n l = Inr st1"
    and rest: "profile_loop st1 (Suc n) ls = Inr st'"
    by (auto split: sum.splits)
  from profile_line_Inr [OF l] Cons.prems(3)
  have "\<And>w. st_version st1 = Some w \<Longrightarrow> single_digits w" by auto
  from Cons.IH [OF rest Cons.prems(2) this] show ?case .
qed

text \<open>
  C10. A line \<open>version <major>.<minor> ...\<close> whose major or minor component has two or
  more digits matches none of the three patterns, so the loop body reports a syntax error
  for it in every state, and a profile that contains such a line is rejected (with that
  syntax error, unless an earlier line is in error). Every version that a successful
  parse returns has components between 0 and 9, hence an \<open>int_value\<close> between 0 and 99.
\<close>

theorem multi_digit_version_is_syntax_error:
  "(list_all is_space ws \<and> major \<noteq> [] \<and> minor \<noteq> []
      \<and> list_all is_digit major \<and> list_all is_digit minor
      \<and> (2 \<le> length major \<or> 2 \<le> length minor)
    \<longrightarrow> re_match version_pattern (version_line ws major minor rest) = None
      \<and> re_match extension_pattern (version_line ws major minor rest) = None
      \<and> re_match comment_pattern (version_line ws major minor rest) = None
      \<and> profile_line st n (version_line ws major minor rest)
          = Inl (SyntaxError n (version_line ws major minor rest))
      \<and> (k < length lines \<and> lines ! k = version_line ws major minor rest
          \<longrightarrow> (\<exists>e. parse_profile lines = Inl e \<and> exit_status e \<noteq> 0 \<and> is_profile_error e
                 \<and> error_line e \<le> Suc k
                 \<and> ((\<exists>r. parse_profile (take k lines) = Inr r)
                      \<longrightarrow> e = SyntaxError (Suc k) (version_line ws major minor rest)))))
   \<and> (parse_profile lines' = Inr (Some v, exts)
    \<longrightarrow> 0 \<le> version_major v \<and> version_major v \<le> 9
      \<and> 0 \<le> version_minor v \<and> version_minor v \<le> 9
      \<and> 0 \<le> int_value v \<and> int_value v \<le> 99)"
proof (intro conjI impI)
  assume "parse_profile lines' = Inr (Some v, exts)"
  then obtain st' where "profile_loop initial_state 1 lines' = Inr st'" "st_version st' = Some v"
    by (auto simp: parse_profile_def split: sum.splits)
  from profile_loop_single_digits [OF this] have sd: "single_digits v"
    by (simp add: initial_state_def)
  then show "0 \<le> version_major v" "version_major v \<le> 9" "0 \<le> version_minor v"
    "version_minor v \<le> 9" "0 \<le> int_value v" "int_value v \<le> 99"
    by (auto simp: single_digits_def int_value_def)
next
  assume h: "list_all is_space ws \<and> major \<noteq> [] \<and> minor \<noteq> []
      \<and> list_all is_digit major \<and> list_all is_digit minor
      \<and> (2 \<le> length major \<or> 2 \<le> length minor)"
  let ?L = "version_line ws major minor rest"
  from h show v: "re_match version_pattern ?L = None"
    by (intro version_pattern_rejects) auto
  show e: "re_match extension_pattern ?L = None" by (rule extension_pattern_rejects)
  show c: "re_match comment_pattern ?L = None" by (rule comment_pattern_rejects)
  have pl: "profile_line s m ?L = Inl (SyntaxError m ?L)" for s m
    by (simp add: profile_line_def v e c)
  show "profile_line st n ?L = Inl (SyntaxError n ?L)" by (rule pl)
  assume k: "k < length lines \<and> lines ! k = ?L"
  have "\<exists>e. profile_loop initial_state 1 lines = Inl e \<and> is_profile_error e
           \<and> 1 \<le> error_line e \<and> error_line e \<le> 1 + k
           \<and> ((\<exists>st'. profile_loop initial_state 1 (take k lines) = Inr st')
                \<longrightarrow> e = SyntaxError (1 + k) ?L)"
  proof (rule profile_loop_fails_at [where Q = "\<lambda>s. True" and E = "\<lambda>m. SyntaxError m ?L"])
    show "profile_line s m (lines ! k) = Inl (SyntaxError m ?L)" for s m
      using k pl by simp
    show "k < length lines" using k by simp
  qed simp_all
  then obtain e where
    e: "profile_loop initial_state 1 lines = Inl e" "is_profile_error e" "error_line e \<le> 1 + k"
    "(\<exists>st'. profile_loop initial_state 1 (take k lines) = Inr st') \<longrightarrow> e = SyntaxError (1 + k) ?L"
    by blast
  have "(\<exists>r. parse_profile (take k lines) = Inr r)
     \<Longrightarrow> (\<exists>st'. profile_loop initial_state 1 (take k lines) = Inr st')"
    by (auto simp: parse_profile_def split: sum.splits)
  with e show "\<exists>e. parse_profile lines = Inl e \<and> exit_status e \<noteq> 0 \<and> is_profile_error e
                 \<and> error_line e \<le> Suc k
                 \<and> ((\<exists>r. parse_profile (take k lines) = Inr r)
                      \<longrightarrow> e = SyntaxError (Suc k) ?L)"
    by (auto simp: parse_profile_def)
qed

theorem multi_digit_version_is_syntax_error_witness:
  "list_all is_space '' '' \<and> list_all is_digit ''3'' \<and> list_all is_digit ''10''
   \<and> version_line '' '' ''3'' ''10'' [newline] = ''version 3.10'' @ [newline]
   \<and> parse_profile [''version 3.10'' @ [newline]]
       = Inl (SyntaxError 1 (''version 3.10'' @ [newline]))
   \<and> parse_profile [''version 3.3 core'' @ [newline]]
       = Inr (Some \<lparr>version_api = ''gl'', version_major = 3, version_minor = 3,
                       version_profile = ''core''\<rparr>, [])
   \<and> int_value \<lparr>version_api = ''gl'', version_major = 3, version_minor = 3,
                   version_profile = ''core''\<rparr> \<le> 99"
proof -
  have hyp: "list_all is_space '' '' \<and> ''3'' \<noteq> [] \<and> ''10'' \<noteq> []
      \<and> list_all is_digit ''3'' \<and> list_all is_digit ''10''
      \<and> (2 \<le> length ''3'' \<or> 2 \<le> length ''10'')"
    by (simp add: is_space_def is_digit_def)
  have line: "version_line '' '' ''3'' ''10'' [newline] = ''version 3.10'' @ [newline]"
    by (simp add: version_line_def)
  have good: "parse_profile [''version 3.3 core'' @ [newline]]
       = Inr (Some \<lparr>version_api = ''gl'', version_major = 3, version_minor = 3,
                       version_profile = ''core''\<rparr>, [])"
    by (simp add: parse_profile_def profile_line_def initial_state_def re_match_def
        version_pattern_def is_space_def is_digit_def newline_def group_def Version_init_def
        py_int_def)
  note inst = multi_digit_version_is_syntax_error [of "'' ''" "''3''" "''10''" "[newline]"
      initial_state 1 0 "[''version 3.10'' @ [newline]]" "[''version 3.3 core'' @ [newline]]"
      "\<lparr>version_api = ''gl'', version_major = 3, version_minor = 3, version_profile = ''core''\<rparr>"
      "[]"]
  from inst hyp line have bad: "parse_profile [''version 3.10'' @ [newline]]
       = Inl (SyntaxError 1 (''version 3.10'' @ [newline]))"
    by (auto simp: parse_profile_def)
  from inst good have "int_value \<lparr>version_api = ''gl'', version_major = 3, version_minor = 3,
                   version_profile = ''core''\<rparr> \<le> 99"
    by blast
  with hyp line good bad show ?thesis by simp
qed

section \<open>The function groups\<close>

lemma remdups_snoc: "remdups (xs @ [x]) = filter (\<lambda>y. y \<noteq> x) (remdups xs) @ [x]"
  by (induction xs) auto

lemma first_occurrences_Cons:
  "first_occurrences (x # xs) = x # first_occurrences (filter (\<lambda>y. y \<noteq> x) xs)"
  by (simp add: first_occurrences_def remdups_snoc rev_filter remdups_filter)

lemma first_occurrences_Nil: "first_occurrences [] = []"
  by (simp add: first_occurrences_def)

lemma subset_functions_loop_ok:
  "set names \<subseteq> dom commands \<Longrightarrow>
   subset_functions_loop commands names (acc, seen) =
     Inr (acc @ map (\<lambda>n. function_of (the (commands n)))
                  (first_occurrences (filter (\<lambda>n. n \<notin> seen) names)),
          seen \<union> set names)"
proof (induction names arbitrary: acc seen)
  case Nil
  show ?case by (simp add: first_occurrences_Nil)
next
  case (Cons n names)
  have flt: "filter (\<lambda>y. y \<noteq> n) (filter (\<lambda>m. m \<notin> seen) names)
           = filter (\<lambda>m. m \<notin> insert n seen) names"
    by (induction names) auto
  show ?case
  proof (cases "n \<in> seen")
    case True
    with Cons show ?thesis by (simp add: insert_absorb)
  next
    case False
    from Cons.prems obtain c where c: "commands n = Some c" by auto
    from Cons.prems have "set names \<subseteq> dom commands" by simp
    from Cons.IH [OF this] False c show ?thesis
      by (simp add: first_occurrences_Cons conj_commute)
  qed
qed

lemma functions_loop_ok:
  "\<forall>s\<in>set ss. set (subset_commands s) \<subseteq> dom commands \<Longrightarrow>
   functions_loop ss commands (acc, seen) = Inr (acc @ groups_from commands seen ss)"
proof (induction ss arbitrary: acc seen)
  case Nil
  show ?case by simp
next
  case (Cons s ss)
  then show ?case by (simp add: subset_functions_loop_ok)
qed

lemma groups_from_index:
  "groups_from commands seen ss =
     map (\<lambda>i. (subset_name (ss ! i),
                map (\<lambda>n. function_of (the (commands n)))
                  (first_occurrences
                     (filter (\<lambda>n. n \<notin> seen \<and> (\<forall>j<i. n \<notin> set (subset_commands (ss ! j))))
                        (subset_commands (ss ! i))))))
       [0 ..< length ss]"
proof (induction ss arbitrary: seen)
  case Nil
  show ?case by simp
next
  case (Cons s ss)
  have split: "[0 ..< length (s # ss)] = 0 # map Suc [0 ..< length ss]"
    by (simp add: upt_conv_Cons map_Suc_upt del: upt_Suc)
  show ?case
    unfolding split
    by (simp add: Cons.IH All_less_Suc2 comp_def conj_ac del: upt_Suc)
qed

text \<open>
  C6. When every command listed in a subset is in the command table, \<open>generate_functions\<close>
  returns one pair per subset, in the order of the subsets and under the subset's name;
  the functions of the subset at index \<open>i\<close> are those of the commands it lists that are
  listed by no subset before it, in the order the subset lists them, each once (at its
  first occurrence). So a command listed by an earlier and a later subset appears under
  the earlier one only.
\<close>

theorem generate_functions_dedup:
  assumes "\<forall>s\<in>set subsets. set (subset_commands s) \<subseteq> dom commands"
  shows "generate_functions subsets commands = Inr (function_groups subsets commands)"
  using functions_loop_ok [OF assms, of "[]" "{}"]
  by (simp add: generate_functions_def groups_from_index function_groups_def kept_commands_def)

theorem generate_functions_dedup_witness:
  "generate_functions example_subsets example_commands =
     Inr [(''VERSION_1_0'', [function_of (example_command ''glA''),
                             function_of (example_command ''glB'')]),
          (''EXT_x'', [function_of (example_command ''glC'')])]"
proof -
  have "\<forall>s\<in>set example_subsets. set (subset_commands s) \<subseteq> dom example_commands"
    by (simp add: example_subsets_def example_commands_def)
  from generate_functions_dedup [OF this] show ?thesis
    by (simp add: function_groups_def kept_commands_def first_occurrences_def
        example_subsets_def example_commands_def upt_rec nth_Cons')
qed

section \<open>Type dependencies\<close>

lemma command_types_loop_ok:
  "set cs \<subseteq> dom commands \<Longrightarrow>
   command_types_loop commands cs R =
     Inr (R \<union> (\<Union>c\<in>set cs. cmd_requiredTypes (the (commands c))))"
  by (induction cs arbitrary: R) (auto simp: Un_assoc)

lemma subset_types_loop_ok:
  "\<forall>s\<in>set ss. set (subset_commands s) \<subseteq> dom commands \<Longrightarrow>
   subset_types_loop ss commands R = Inr (R \<union> direct_types ss commands)"
proof (induction ss arbitrary: R)
  case Nil
  show ?case by (simp add: direct_types_def)
next
  case (Cons s ss)
  then show ?case
    by (simp add: command_types_loop_ok direct_types_def Un_assoc)
qed

lemma dependent_loop_mono: "R \<subseteq> dependent_loop ts R"
proof (induction ts arbitrary: R)
  case Nil
  show ?case by simp
next
  case (Cons t ts)
  from Cons [of R] Cons [of "insert (the (type_dependent t)) R"]
  show ?case by (cases "name_in (type_name t) R \<and> truthy (type_dependent t)") auto
qed

lemma dependent_loop_append:
  "dependent_loop (xs @ ys) R = dependent_loop ys (dependent_loop xs R)"
  by (induction xs arbitrary: R) auto

lemma name_in_mono: "name_in n R \<Longrightarrow> R \<subseteq> R' \<Longrightarrow> name_in n R'"
  by (auto simp: name_in_def split: option.splits)

lemma dependent_loop_adds:
  "t \<in> set ts \<Longrightarrow> name_in (type_name t) R \<Longrightarrow> truthy (type_dependent t) \<Longrightarrow>
   the (type_dependent t) \<in> dependent_loop ts R"
proof (induction ts arbitrary: R)
  case Nil
  then show ?case by simp
next
  case (Cons u ts)
  show ?case
  proof (cases "t = u")
    case True
    with Cons.prems dependent_loop_mono [of "insert (the (type_dependent u)) R" ts]
    show ?thesis by auto
  next
    case False
    with Cons.prems have "t \<in> set ts" by simp
    moreover have "name_in (type_name t) (insert (the (type_dependent u)) R)"
      using Cons.prems(2) by (rule name_in_mono) auto
    ultimately show ?thesis
      using Cons.IH Cons.prems by auto
  qed
qed

lemma dependent_loop_upper: "dependent_loop ts R \<subseteq> R \<union> all_dependents ts"
proof (induction ts arbitrary: R)
  case Nil
  show ?case by simp
next
  case (Cons t ts)
  from Cons [of R] Cons [of "insert (the (type_dependent t)) R"]
  show ?case by (auto simp: all_dependents_def)
qed

lemma dependent_loop_exact:
  assumes "dependents_first ts" "R0 \<subseteq> R"
    and "\<forall>u\<in>set ts. truthy (type_dependent u) \<longrightarrow>
           (name_in (type_name u) R \<longleftrightarrow> name_in (type_name u) R0)"
  shows "dependent_loop ts R = R \<union> dependents_of ts R0"
  using assms
proof (induction ts arbitrary: R)
  case Nil
  show ?case by (simp add: dependents_of_def)
next
  case (Cons t ts)
  show ?case
  proof (cases "name_in (type_name t) R \<and> truthy (type_dependent t)")
    case False
    with Cons.prems have "\<not> (name_in (type_name t) R0 \<and> truthy (type_dependent t))"
      by auto
    moreover from Cons.prems have "dependent_loop ts R = R \<union> dependents_of ts R0"
      by (intro Cons.IH) auto
    ultimately show ?thesis using False by (auto simp: dependents_of_def)
  next
    case True
    then obtain d where d: "type_dependent t = Some d" by (auto simp: truthy_def split: option.splits)
    from True Cons.prems have in0: "name_in (type_name t) R0" by auto
    have "dependent_loop ts (insert d R) = insert d R \<union> dependents_of ts R0"
    proof (rule Cons.IH)
      show "dependents_first ts" using Cons.prems by simp
      show "R0 \<subseteq> insert d R" using Cons.prems by auto
      show "\<forall>u\<in>set ts. truthy (type_dependent u) \<longrightarrow>
           (name_in (type_name u) (insert d R) \<longleftrightarrow> name_in (type_name u) R0)"
      proof (intro ballI impI)
        fix u assume u: "u \<in> set ts" "truthy (type_dependent u)"
        with Cons.prems True d have "type_name u \<noteq> Some d"
          by (auto simp: list_all_iff)
        moreover from u Cons.prems
        have "name_in (type_name u) R \<longleftrightarrow> name_in (type_name u) R0" by auto
        ultimately show "name_in (type_name u) (insert d R) \<longleftrightarrow> name_in (type_name u) R0"
          by (auto simp: name_in_def split: option.splits)
      qed
    qed
    with True d in0 show ?thesis by (auto simp: dependents_of_def)
  qed
qed

text \<open>
  C3, as the code has it. When every listed command is in the command table,
  \<open>resolve_type_dependencies\<close> returns a set that contains the directly referenced types
  and the dependent of every one of them, and whose other members are all dependents
  declared in the type list. The expansion is one pass over the type list that tests each
  entry against the set as grown so far: the result is exactly one level of expansion
  when no entry is followed by an entry for its dependent that has a dependent itself,
  and when the entry of a dependent does come later in the list, the dependent's own
  dependent is added as well.
\<close>

theorem resolve_type_dependencies_forward_pass:
  assumes "\<forall>s\<in>set subsets. set (subset_commands s) \<subseteq> dom commands"
  shows "\<exists>R. resolve_type_dependencies subsets types commands = Inr R
     \<and> one_hop types (direct_types subsets commands) \<subseteq> R
     \<and> R \<subseteq> direct_types subsets commands \<union> all_dependents types
     \<and> (dependents_first types \<longrightarrow> R = one_hop types (direct_types subsets commands))
     \<and> (\<forall>pre t mid u post d d'.
          types = pre @ t # mid @ u # post
          \<and> name_in (type_name t) (direct_types subsets commands)
          \<and> type_dependent t = Some d \<and> d \<noteq> []
          \<and> type_name u = Some d \<and> type_dependent u = Some d' \<and> d' \<noteq> []
          \<longrightarrow> d' \<in> R)"
proof -
  let ?D = "direct_types subsets commands"
  let ?R = "dependent_loop types ?D"
  have res: "resolve_type_dependencies subsets types commands = Inr ?R"
    using subset_types_loop_ok [OF assms, of "{}"] by (simp add: resolve_type_dependencies_def)
  have a: "one_hop types ?D \<subseteq> ?R"
    using dependent_loop_mono [of ?D types] dependent_loop_adds [of _ types ?D]
    by (auto simp: one_hop_def dependents_of_def)
  have b: "?R \<subseteq> ?D \<union> all_dependents types" by (rule dependent_loop_upper)
  have c: "dependents_first types \<longrightarrow> ?R = one_hop types ?D"
    using dependent_loop_exact [of types ?D ?D] by (auto simp: one_hop_def)
  have d: "d' \<in> ?R"
    if h: "types = pre @ t # mid @ u # post" "name_in (type_name t) ?D"
      "type_dependent t = Some d" "d \<noteq> []" "type_name u = Some d"
      "type_dependent u = Some d'" "d' \<noteq> []"
    for pre t mid u post d d'
  proof -
    let ?R1 = "dependent_loop (pre @ [t]) ?D"
    have "the (type_dependent t) \<in> ?R1"
      using h by (intro dependent_loop_adds) (auto simp: truthy_def)
    with h have "name_in (type_name u) ?R1" by (simp add: name_in_def)
    then have "the (type_dependent u) \<in> dependent_loop (mid @ u # post) ?R1"
      using h by (intro dependent_loop_adds) (auto simp: truthy_def)
    moreover have "?R = dependent_loop (mid @ u # post) ?R1"
      using h(1) dependent_loop_append [of "pre @ [t]" "mid @ u # post" ?D] by simp
    ultimately show ?thesis using h by simp
  qed
  from res a b c d show ?thesis by blast
qed

theorem resolve_type_dependencies_forward_pass_witness:
  "dependents_first [dependent_type ''B'' ''C'', dependent_type ''A'' ''B'']
   \<and> resolve_type_dependencies [types_subset [''A'']]
        [dependent_type ''B'' ''C'', dependent_type ''A'' ''B''] Map.empty
      = Inr {''A'', ''B''}"
proof -
  have df: "dependents_first [dependent_type ''B'' ''C'', dependent_type ''A'' ''B'']"
    by (simp add: dependent_type_def truthy_def)
  have "\<forall>s\<in>set [types_subset [''A'']]. set (subset_commands s) \<subseteq> dom (Map.empty :: string \<rightharpoonup> Command)"
    by (simp add: types_subset_def)
  from resolve_type_dependencies_forward_pass [OF this,
      of "[dependent_type ''B'' ''C'', dependent_type ''A'' ''B'']"] df
  have "resolve_type_dependencies [types_subset [''A'']]
        [dependent_type ''B'' ''C'', dependent_type ''A'' ''B''] Map.empty
      = Inr (one_hop [dependent_type ''B'' ''C'', dependent_type ''A'' ''B'']
               (direct_types [types_subset [''A'']] Map.empty))"
    by auto
  also have "one_hop [dependent_type ''B'' ''C'', dependent_type ''A'' ''B'']
               (direct_types [types_subset [''A'']] Map.empty) = {''A'', ''B''}"
    by (auto simp: one_hop_def dependents_of_def direct_types_def types_subset_def
        dependent_type_def name_in_def truthy_def)
  finally show ?thesis using df by simp
qed

text \<open>
  C3 as stated fails: with \<open>A\<close> required, \<open>A\<close> depending on \<open>B\<close> and a later entry \<open>B\<close>
  depending on \<open>C\<close>, the result contains \<open>C\<close>, two hops away from \<open>A\<close>.
\<close>

theorem resolve_type_dependencies_second_hop_counterexample:
  "resolve_type_dependencies [types_subset [''A'']]
        [dependent_type ''A'' ''B'', dependent_type ''B'' ''C''] Map.empty
      = Inr {''A'', ''B'', ''C''}
   \<and> one_hop [dependent_type ''A'' ''B'', dependent_type ''B'' ''C'']
        (direct_types [types_subset [''A'']] Map.empty) = {''A'', ''B''}
   \<and> ''C'' \<notin> one_hop [dependent_type ''A'' ''B'', dependent_type ''B'' ''C'']
        (direct_types [types_subset [''A'']] Map.empty)"
  by (auto simp: resolve_type_dependencies_def one_hop_def dependents_of_def direct_types_def
      types_subset_def dependent_type_def name_in_def truthy_def)

section \<open>Type specialization\<close>










section \<open>Feature subsets\<close>

lemma actions_loop_eq:
  "actions_loop api profile as (subsets, typeList, enumList, commandList) =
     (map (fold remove_from
             (filter (\<lambda>a. tag a = ''remove'') (filter (\<lambda>a. \<not> skipped api profile a) as)))
        subsets,
      typeList @ concat (map (\<lambda>a. extract_names a [''type''])
        (filter (\<lambda>a. tag a = ''require'') (filter (\<lambda>a. \<not> skipped api profile a) as))),
      enumList @ concat (map (\<lambda>a. extract_names a [''enum''])
        (filter (\<lambda>a. tag a = ''require'') (filter (\<lambda>a. \<not> skipped api profile a) as))),
      commandList @ concat (map (\<lambda>a. extract_names a [''command''])
        (filter (\<lambda>a. tag a = ''require'') (filter (\<lambda>a. \<not> skipped api profile a) as))))"
proof (induction as arbitrary: subsets typeList enumList commandList)
  case Nil
  show ?case by simp
next
  case (Cons a as)
  show ?case
  proof (cases "skipped api profile a")
    case True
    with Cons show ?thesis by simp
  next
    case False
    show ?thesis
    proof (cases "tag a = ''require''")
      case True
      with False Cons show ?thesis by simp
    next
      case nreq: False
      show ?thesis
      proof (cases "tag a = ''remove''")
        case True
        with False nreq Cons show ?thesis by (simp add: comp_def)
      next
        case nrem: False
        with False nreq Cons show ?thesis by simp
      qed
    qed
  qed
qed

lemma feature_step:
  "actions_loop api profile (children f) (subsets, [], [], []) =
     (map (fold remove_from (remove_sections api profile [f])) subsets,
      required_names api profile ''type'' f,
      required_names api profile ''enum'' f,
      required_names api profile ''command'' f)"
  by (simp add: actions_loop_eq remove_sections_def required_names_def active_sections_def)

lemma remove_sections_Cons:
  "remove_sections api profile (f # fs)
     = remove_sections api profile [f] @ remove_sections api profile fs"
  by (simp add: remove_sections_def)

lemma features_loop_eq:
  assumes "list_all number_parses fs" "list_all (\<lambda>f. get_attr f ''name'' \<noteq> None) fs"
  shows "features_loop v api profile fs subsets =
     Inr (map (fold remove_from (remove_sections api profile (filter (in_version v) fs))) subsets
          @ feature_subsets api profile (filter (in_version v) fs))"
  using assms
proof (induction fs arbitrary: subsets)
  case Nil
  show ?case by (simp add: remove_sections_def)
next
  case (Cons f fs)
  from Cons.prems obtain number where
    number: "get_attr f ''number'' = Some number" and ok: "\<not> isl (parse_int_version number)"
    by (auto simp: number_parses_def split: option.splits)
  from ok obtain n where n: "parse_int_version number = Inr n"
    by (cases "parse_int_version number") auto
  from Cons.prems obtain name where name: "get_attr f ''name'' = Some name"
    by auto
  from Cons.prems have rest: "list_all number_parses fs"
    "list_all (\<lambda>f. get_attr f ''name'' \<noteq> None) fs"
    by simp_all
  show ?case
  proof (cases "n \<le> v")
    case False
    then have "\<not> in_version v f" by (simp add: in_version_def number n)
    with False Cons.IH [OF rest] show ?thesis by (simp add: number n)
  next
    case True
    then have iv: "in_version v f" by (simp add: in_version_def number n)
    let ?own = "own_subset api profile f"
    have own: "?own = \<lparr>subset_name = drop 3 name,
        subset_types = required_names api profile ''type'' f,
        subset_enums = required_names api profile ''enum'' f,
        subset_commands = required_names api profile ''command'' f\<rparr>"
      by (simp add: own_subset_def name)
    have "features_loop v api profile (f # fs) subsets =
        features_loop v api profile fs
          (map (fold remove_from (remove_sections api profile [f])) subsets @ [?own])"
      using True by (simp add: number n name feature_step own)
    also have "\<dots> = Inr (map (fold remove_from
                  (remove_sections api profile (filter (in_version v) fs)))
                (map (fold remove_from (remove_sections api profile [f])) subsets @ [?own])
              @ feature_subsets api profile (filter (in_version v) fs))"
      by (rule Cons.IH [OF rest])
    also have "\<dots> = Inr (map (fold remove_from
                  (remove_sections api profile (filter (in_version v) (f # fs)))) subsets
              @ feature_subsets api profile (filter (in_version v) (f # fs)))"
      using iv remove_sections_Cons [of api profile f "filter (in_version v) fs"]
      by (simp add: comp_def)
    finally show ?thesis .
  qed
qed

lemma feature_elements_attributes:
  "list_all (\<lambda>f. get_attr f ''name'' \<noteq> None) (feature_elements root api)"
  by (simp add: feature_elements_def list_all_iff)

lemma parse_xml_features_eq:
  assumes "list_all number_parses (feature_elements root api)"
  shows "parse_xml_features root v api profile =
     Inr (feature_subsets api profile (filter (in_version v) (feature_elements root api)))"
  using features_loop_eq [OF assms feature_elements_attributes, of v api profile "[]"]
  by (simp add: parse_xml_features_def)

lemma fold_remove_from:
  "subset_name (fold remove_from rs s) = subset_name s
   \<and> subset_types (fold remove_from rs s)
       = filter (\<lambda>e. \<forall>a\<in>set rs. e \<notin> set (extract_names a [''type''])) (subset_types s)
   \<and> subset_enums (fold remove_from rs s)
       = filter (\<lambda>e. \<forall>a\<in>set rs. e \<notin> set (extract_names a [''enum''])) (subset_enums s)
   \<and> subset_commands (fold remove_from rs s)
       = filter (\<lambda>e. \<forall>a\<in>set rs. e \<notin> set (extract_names a [''command''])) (subset_commands s)"
proof (induction rs arbitrary: s)
  case Nil
  show ?case by simp
next
  case (Cons r rs)
  show ?case
    by (simp add: Cons [of "remove_from r s"]) (auto simp: remove_from_def intro: filter_cong)
qed

lemma length_feature_subsets: "length (feature_subsets api profile fs) = length fs"
  by (induction fs) auto

lemma feature_subsets_nth:
  "i < length fs \<Longrightarrow>
   feature_subsets api profile fs ! i =
     fold remove_from (remove_sections api profile (drop (Suc i) fs))
       (own_subset api profile (fs ! i))"
proof (induction fs arbitrary: i)
  case Nil
  then show ?case by simp
next
  case (Cons f fs)
  then show ?case by (cases i) auto
qed

lemma later_remove_section:
  assumes "i < j" "j < length fs" "a \<in> set (children (fs ! j))" "tag a = ''remove''"
    "\<not> skipped api profile a"
  shows "a \<in> set (remove_sections api profile (drop (Suc i) fs))"
proof -
  from assms(1,2) have "drop (Suc i) fs ! (j - Suc i) = fs ! j"
    and "j - Suc i < length (drop (Suc i) fs)"
    by auto
  then have "fs ! j \<in> set (drop (Suc i) fs)"
    by (metis nth_mem)
  with assms(3-) show ?thesis
    by (auto simp: remove_sections_def active_sections_def)
qed



text \<open>
  C1, as the code has it. A feature of the requested api, within the version, whose
  sections are a \<open>require\<close> section listing the types \<open>A, B, C\<close> and then a \<open>remove\<close>
  section listing \<open>B\<close>, gets a subset whose type list is \<open>[A, B, C]\<close> (unless a later feature
  removes one of them): the lists of the feature being read are not in \<open>subsets\<close> yet, so
  its own \<open>remove\<close> section does not reach them. \<open>B\<close> is removed from the subsets of all
  earlier features instead.
\<close>

theorem own_remove_leaves_own_types:
  assumes fe: "feature_elements root api = before @ f # after"
    and np: "list_all number_parses (before @ f # after)"
    and iv: "in_version v f"
    and ch: "children f = [req, rem]" and tq: "tag req = ''require''" and tr: "tag rem = ''remove''"
    and sq: "\<not> skipped api profile req" and sr: "\<not> skipped api profile rem"
    and nq: "extract_names req [''type''] = [A, B, C]"
    and nr: "extract_names rem [''type''] = [B]"
    and later: "\<forall>a\<in>set (remove_sections api profile (filter (in_version v) after)).
        set (extract_names a [''type'']) \<inter> {A, B, C} = {}"
  shows "\<exists>subsets. parse_xml_features root v api profile = Inr subsets
     \<and> length (filter (in_version v) before) < length subsets
     \<and> subset_name (subsets ! length (filter (in_version v) before))
         = drop 3 (the (get_attr f ''name''))
     \<and> subset_types (subsets ! length (filter (in_version v) before)) = [A, B, C]
     \<and> (\<forall>i < length (filter (in_version v) before). B \<notin> set (subset_types (subsets ! i)))"
proof -
  let ?fb = "filter (in_version v) before"
  let ?fa = "filter (in_version v) after"
  let ?fs = "?fb @ f # ?fa"
  let ?k = "length ?fb"
  let ?subsets = "feature_subsets api profile ?fs"
  have res: "parse_xml_features root v api profile = Inr ?subsets"
    using parse_xml_features_eq [of root api v profile] np iv by (simp add: fe)
  have k: "?k < length ?subsets" by (simp add: length_feature_subsets)
  have "?subsets ! ?k = fold remove_from (remove_sections api profile (drop (Suc ?k) ?fs))
      (own_subset api profile (?fs ! ?k))"
    by (rule feature_subsets_nth) simp
  then have own: "?subsets ! ?k =
      fold remove_from (remove_sections api profile ?fa) (own_subset api profile f)"
    by simp
  have req: "required_names api profile ''type'' f = [A, B, C]"
    using ch tq tr sq sr nq by (simp add: required_names_def active_sections_def)
  have name: "subset_name (?subsets ! ?k) = drop 3 (the (get_attr f ''name''))"
    unfolding own by (simp add: fold_remove_from own_subset_def)
  have types: "subset_types (?subsets ! ?k) = [A, B, C]"
    unfolding own using later by (auto simp: fold_remove_from own_subset_def req)
  have earlier: "B \<notin> set (subset_types (?subsets ! i))" if i: "i < ?k" for i
  proof -
    from i have il: "i < length ?fs" by simp
    define R where "R = remove_sections api profile (drop (Suc i) ?fs)"
    have m: "rem \<in> set R"
      unfolding R_def
    proof (rule later_remove_section [OF i])
      show "?k < length ?fs" by simp
      show "rem \<in> set (children (?fs ! ?k))" using ch by simp
    qed (rule tr, rule sr)
    have "subset_types (?subsets ! i) =
        filter (\<lambda>e. \<forall>a\<in>set R. e \<notin> set (extract_names a [''type'']))
          (subset_types (own_subset api profile (?fs ! i)))"
      unfolding R_def feature_subsets_nth [OF il] by (simp only: fold_remove_from)
    moreover have "B \<in> set (extract_names rem [''type''])" using nr by simp
    ultimately show ?thesis using m by auto
  qed
  from res k name types earlier show ?thesis by blast
qed

theorem own_remove_leaves_own_types_witness:
  "parse_xml_features (registry [earlier_feature, require_then_remove]) 11 ''gl'' []
     \<noteq> Inl AttributeError
   \<and> subset_types
       (projr (parse_xml_features (registry [earlier_feature, require_then_remove]) 11 ''gl'' []) ! 1)
     = [''A'', ''B'', ''C'']
   \<and> ''B'' \<notin> set (subset_types
       (projr (parse_xml_features (registry [earlier_feature, require_then_remove]) 11 ''gl'' []) ! 0))"
proof -
  let ?doc = "registry [earlier_feature, require_then_remove]"
  let ?req = "section_of ''require'' [named ''type'' ''A'', named ''type'' ''B'', named ''type'' ''C'']"
  let ?rem = "section_of ''remove'' [named ''type'' ''B'']"
  have fe: "feature_elements ?doc ''gl'' = [earlier_feature] @ require_then_remove # []"
    by (simp add: feature_elements_def registry_def earlier_feature_def require_then_remove_def
        feature_of_def get_attr_def)
  have np: "list_all number_parses ([earlier_feature] @ require_then_remove # [])"
    by (simp add: number_parses_def earlier_feature_def require_then_remove_def
        feature_of_def get_attr_def parse_int_version_def re_match_def number_pattern_def
        is_digit_def group_def py_int_def)
  have iv: "in_version 11 require_then_remove" "in_version 11 earlier_feature"
    by (simp_all add: in_version_def earlier_feature_def require_then_remove_def
        feature_of_def get_attr_def parse_int_version_def re_match_def number_pattern_def
        is_digit_def group_def py_int_def)
  have ch: "children require_then_remove = [?req, ?rem]"
    by (simp add: require_then_remove_def feature_of_def)
  have tags: "tag ?req = ''require''" "tag ?rem = ''remove''"
    by (simp_all add: section_of_def)
  have sk: "\<not> skipped ''gl'' [] ?req" "\<not> skipped ''gl'' [] ?rem"
    by (simp_all add: skipped_def section_of_def get_attr_def)
  have names: "extract_names ?req [''type''] = [''A'', ''B'', ''C'']"
    "extract_names ?rem [''type''] = [''B'']"
    by (simp_all add: extract_names_def section_of_def named_def get_attr_def List.map_filter_def)
  have later: "\<forall>a\<in>set (remove_sections ''gl'' [] (filter (in_version 11) [])).
        set (extract_names a [''type'']) \<inter> {''A'', ''B'', ''C''} = {}"
    by (simp add: remove_sections_def)
  from own_remove_leaves_own_types [OF fe np iv(1) ch tags sk names later] iv(2)
  show ?thesis by auto
qed

text \<open>
  C1 as stated fails: for the single feature with \<open>require {A, B, C}\<close> followed by
  \<open>remove {B}\<close>, the type list of its subset is \<open>[A, B, C]\<close>, not \<open>[A, C]\<close>.
\<close>

theorem own_remove_counterexample:
  "parse_xml_features (registry [require_then_remove]) 11 ''gl'' [] =
     Inr [\<lparr>subset_name = ''VERSION_1_1'', subset_types = [''A'', ''B'', ''C''],
            subset_enums = [], subset_commands = []\<rparr>]"
  by (simp add: parse_xml_features_def feature_elements_def registry_def require_then_remove_def
      feature_of_def section_of_def named_def get_attr_def
      parse_int_version_def re_match_def number_pattern_def is_digit_def group_def py_int_def
      skipped_def extract_names_def remove_from_def List.map_filter_def)

section \<open>Extension subsets and the lookups of the output assembly\<close>

lemma extensions_loop_eq:
  "extensions_loop root exts (printed, subsets) =
     (printed @ map (\<lambda>e. not_an_extension (fst e)) (filter (\<lambda>e. \<not> known root e) exts),
      subsets @ map (\<lambda>e. extension_subset root (fst e)) (filter (known root) exts))"
proof (induction exts arbitrary: printed subsets)
  case Nil
  show ?case by simp
next
  case (Cons e exts)
  obtain name required where e: "e = (name, required)" by (cases e)
  show ?case
    by (cases "find_extension root name")
      (simp_all add: e Cons known_def extension_subset_def)
qed

lemma parse_xml_extensions_eq:
  "parse_xml_extensions root exts =
     (map (\<lambda>e. not_an_extension (fst e)) (filter (\<lambda>e. \<not> known root e) exts),
      map (\<lambda>e. extension_subset root (fst e)) (filter (known root) exts))"
  by (simp add: parse_xml_extensions_def extensions_loop_eq)

lemma not_an_extension_inj: "not_an_extension a = not_an_extension b \<longleftrightarrow> a = b"
  by (simp add: not_an_extension_def)

lemma one_warning:
  assumes "distinct (map fst exts)" "e \<in> set exts" "\<not> known root e"
  shows "count_list (map (\<lambda>e. not_an_extension (fst e)) (filter (\<lambda>e. \<not> known root e) exts))
           (not_an_extension (fst e)) = 1"
  using assms
proof (induction exts)
  case Nil
  then show ?case by simp
next
  case (Cons x exts)
  show ?case
  proof (cases "fst x = fst e")
    case True
    from Cons.prems True have notin: "fst e \<notin> fst ` set exts" by auto
    then have "e \<notin> set exts" by (metis imageI)
    with Cons.prems(2) have xe: "x = e" by (metis set_ConsD)
    from notin have "not_an_extension (fst e)
        \<notin> set (map (\<lambda>e. not_an_extension (fst e)) (filter (\<lambda>e. \<not> known root e) exts))"
      by (force simp: not_an_extension_inj image_iff)
    then have "count_list (map (\<lambda>e. not_an_extension (fst e))
        (filter (\<lambda>e. \<not> known root e) exts)) (not_an_extension (fst e)) = 0"
      by (metis count_list_0_iff)
    with xe Cons.prems show ?thesis by simp
  next
    case False
    with Cons.prems have "e \<in> set exts" by auto
    with Cons False show ?thesis by (simp add: not_an_extension_inj)
  qed
qed

text \<open>
  C8. \<open>parse_xml_extensions\<close> cannot fail. It prints one line \<open><name> is not an extension\<close>
  per requested extension without an entry \<open>GL_<name>\<close>, in request order (exactly one
  line for such an extension, requested names being distinct), and returns one subset per
  requested extension that has an entry, in request order. The subsets, and with them the
  three outputs of \<open>parse_xml\<close> (or the error that ends it), are those of the request
  list without the unknown extensions.
\<close>

theorem unknown_extension_is_skipped:
  "parse_xml_extensions root extensions =
     (map (\<lambda>e. not_an_extension (fst e)) (filter (\<lambda>e. \<not> known root e) extensions),
      map (\<lambda>e. extension_subset root (fst e)) (filter (known root) extensions))
   \<and> map subset_name (snd (parse_xml_extensions root extensions))
       = map fst (filter (known root) extensions)
   \<and> snd (parse_xml_extensions root extensions)
       = snd (parse_xml_extensions root (filter (known root) extensions))
   \<and> snd (parse_xml root version extensions)
       = snd (parse_xml root version (filter (known root) extensions))
   \<and> fst (parse_xml_extensions root (filter (known root) extensions)) = []
   \<and> (distinct (map fst extensions) \<longrightarrow>
        (\<forall>e\<in>set extensions. \<not> known root e \<longrightarrow>
           count_list (fst (parse_xml_extensions root extensions)) (not_an_extension (fst e)) = 1))"
proof -
  have same: "snd (parse_xml_extensions root extensions)
       = snd (parse_xml_extensions root (filter (known root) extensions))"
    by (simp add: parse_xml_extensions_eq)
  have names: "map subset_name (snd (parse_xml_extensions root extensions))
       = map fst (filter (known root) extensions)"
    by (simp add: parse_xml_extensions_eq extension_subset_def comp_def)
  have pipeline: "snd (parse_xml root version extensions)
       = snd (parse_xml root version (filter (known root) extensions))"
    using same by (auto simp: parse_xml_def split: sum.splits prod.splits)
  have quiet: "fst (parse_xml_extensions root (filter (known root) extensions)) = []"
    by (simp add: parse_xml_extensions_eq)
  have once: "distinct (map fst extensions) \<longrightarrow>
        (\<forall>e\<in>set extensions. \<not> known root e \<longrightarrow>
           count_list (fst (parse_xml_extensions root extensions)) (not_an_extension (fst e)) = 1)"
    by (simp add: parse_xml_extensions_eq one_warning)
  show ?thesis
    by (intro conjI parse_xml_extensions_eq names same pipeline quiet once)
qed

theorem unknown_extension_is_skipped_witness:
  "distinct (map fst [(''EXT_bar'', False), (''EXT_foo'', True)])
   \<and> \<not> known extensions_document (''EXT_bar'', False)
   \<and> parse_xml_extensions extensions_document [(''EXT_bar'', False), (''EXT_foo'', True)] =
       ([''EXT_bar is not an extension''],
        [\<lparr>subset_name = ''EXT_foo'', subset_types = [], subset_enums = [],
           subset_commands = [''glBar'']\<rparr>])
   \<and> count_list
         (fst (parse_xml_extensions extensions_document [(''EXT_bar'', False), (''EXT_foo'', True)]))
         (not_an_extension ''EXT_bar'') = 1"
proof -
  let ?exts = "[(''EXT_bar'', False), (''EXT_foo'', True)]"
  have d: "distinct (map fst ?exts)" by simp
  have k: "\<not> known extensions_document (''EXT_bar'', False)"
    "known extensions_document (''EXT_foo'', True)"
    by (simp_all add: known_def find_extension_def extensions_document_def get_attr_def)
  note inst = unknown_extension_is_skipped [of extensions_document ?exts]
  from inst k have "parse_xml_extensions extensions_document ?exts =
       ([''EXT_bar is not an extension''],
        [\<lparr>subset_name = ''EXT_foo'', subset_types = [], subset_enums = [],
           subset_commands = [''glBar'']\<rparr>])"
    by (simp add: not_an_extension_def extension_subset_def find_extension_def
        extensions_document_def get_attr_def extract_names_def List.map_filter_def)
  moreover from inst d k have "count_list (fst (parse_xml_extensions extensions_document ?exts))
         (not_an_extension (fst (''EXT_bar'', False))) = 1"
    by (metis list.set_intros(1))
  ultimately show ?thesis using d k by simp
qed

lemma enum_defines_isl:
  "\<not> isl (enum_defines enums names acc) \<longleftrightarrow> set names \<subseteq> dom enums"
  by (induction names arbitrary: acc) (auto split: option.splits)

lemma enums_decl_loop_isl:
  "\<not> isl (enums_decl_loop ss enums acc)
     \<longleftrightarrow> (\<forall>s\<in>set ss. set (subset_enums s) \<subseteq> dom enums)"
proof (induction ss arbitrary: acc)
  case Nil
  show ?case by simp
next
  case (Cons s ss)
  show ?case
  proof (cases "subset_enums s = []")
    case True
    with Cons show ?thesis by simp
  next
    case False
    let ?d = "enum_defines enums (subset_enums s)
                ((if acc \<noteq> [] then acc @ [newline, newline] else acc)
                   @ ''/* GL_'' @ subset_name s @ '' */'' @ [newline])"
    show ?thesis
    proof (cases ?d)
      case (Inl e)
      with enum_defines_isl [of enums "subset_enums s"] have "\<not> set (subset_enums s) \<subseteq> dom enums"
        by (metis sum.disc(1))
      with Inl False show ?thesis by simp
    next
      case (Inr d)
      with enum_defines_isl [of enums "subset_enums s"] have "set (subset_enums s) \<subseteq> dom enums"
        by (metis sum.disc(2))
      with Inr False Cons [of d] show ?thesis by simp
    qed
  qed
qed

lemma command_types_loop_isl:
  "\<not> isl (command_types_loop commands cs R) \<longleftrightarrow> set cs \<subseteq> dom commands"
  by (induction cs arbitrary: R) (auto split: option.splits)

lemma subset_types_loop_isl:
  "\<not> isl (subset_types_loop ss commands R)
     \<longleftrightarrow> (\<forall>s\<in>set ss. set (subset_commands s) \<subseteq> dom commands)"
proof (induction ss arbitrary: R)
  case Nil
  show ?case by simp
next
  case (Cons s ss)
  let ?c = "command_types_loop commands (subset_commands s) (R \<union> set (subset_types s))"
  show ?case
  proof (cases ?c)
    case (Inl e)
    with command_types_loop_isl [of commands "subset_commands s"]
    have "\<not> set (subset_commands s) \<subseteq> dom commands"
      by (metis sum.disc(1))
    with Inl show ?thesis by simp
  next
    case (Inr R')
    with command_types_loop_isl [of commands "subset_commands s"]
    have "set (subset_commands s) \<subseteq> dom commands"
      by (metis sum.disc(2))
    with Inr Cons [of R'] show ?thesis by simp
  qed
qed

lemma subset_functions_loop_isl:
  "seen \<subseteq> dom commands \<Longrightarrow>
   (case subset_functions_loop commands names (acc, seen) of
      Inl e \<Rightarrow> \<not> set names \<subseteq> dom commands
    | Inr (fs, seen') \<Rightarrow> set names \<subseteq> dom commands \<and> seen' \<subseteq> dom commands)"
proof (induction names arbitrary: acc seen)
  case Nil
  then show ?case by simp
next
  case (Cons n names)
  show ?case
  proof (cases "n \<in> seen")
    case True
    with Cons.prems have "n \<in> dom commands" by auto
    with True Cons.IH [OF Cons.prems, of acc] show ?thesis
      by (auto split: sum.splits)
  next
    case False
    show ?thesis
    proof (cases "commands n")
      case None
      with False show ?thesis by (auto simp: domIff)
    next
      case (Some c)
      with Cons.prems have "insert n seen \<subseteq> dom commands" by auto
      from Cons.IH [OF this, of "acc @ [function_of c]"] False Some show ?thesis
        by (auto split: sum.splits)
    qed
  qed
qed

lemma functions_loop_isl:
  "seen \<subseteq> dom commands \<Longrightarrow>
   (\<not> isl (functions_loop ss commands (acc, seen))
      \<longleftrightarrow> (\<forall>s\<in>set ss. set (subset_commands s) \<subseteq> dom commands))"
proof (induction ss arbitrary: acc seen)
  case Nil
  show ?case by simp
next
  case (Cons s ss)
  show ?case
  proof (cases "subset_functions_loop commands (subset_commands s) ([], seen)")
    case (Inl e)
    with subset_functions_loop_isl [OF Cons.prems, of "subset_commands s" "[]"]
    show ?thesis by simp
  next
    case (Inr p)
    obtain fs seen' where p: "p = (fs, seen')" by (cases p)
    with Inr subset_functions_loop_isl [OF Cons.prems, of "subset_commands s" "[]"]
    have ok: "set (subset_commands s) \<subseteq> dom commands" "seen' \<subseteq> dom commands"
      by auto
    from Cons.IH [OF ok(2), of "acc @ [(subset_name s, fs)]"] Inr p ok(1)
    show ?thesis by simp
  qed
qed

text \<open>
  C9, as the code has it. \<open>generate_passthru\<close> cannot fail. \<open>generate_enums\<close> returns
  exactly when every enum name listed in a subset is a key of the enum mapping, and
  \<open>generate_functions\<close> exactly when every command name listed in a subset is in the
  command table; otherwise each raises KeyError. The parsers guarantee neither. The
  command lookups cannot fail inside the pipeline, because \<open>resolve_type_dependencies\<close>,
  which runs first, returns under the same condition.
\<close>

theorem assembler_lookups:
  "(\<not> isl (generate_enums subsets enums)
      \<longleftrightarrow> (\<forall>s\<in>set subsets. set (subset_enums s) \<subseteq> dom enums))
   \<and> (\<not> isl (generate_functions subsets commands)
      \<longleftrightarrow> (\<forall>s\<in>set subsets. set (subset_commands s) \<subseteq> dom commands))
   \<and> (\<not> isl (resolve_type_dependencies subsets types commands)
      \<longleftrightarrow> (\<forall>s\<in>set subsets. set (subset_commands s) \<subseteq> dom commands))
   \<and> (\<not> isl (resolve_type_dependencies subsets types commands)
      \<longrightarrow> \<not> isl (generate_functions subsets commands))"
proof -
  have e: "\<not> isl (generate_enums subsets enums)
      \<longleftrightarrow> (\<forall>s\<in>set subsets. set (subset_enums s) \<subseteq> dom enums)"
    by (simp add: generate_enums_def enums_decl_loop_isl)
  have f: "\<not> isl (generate_functions subsets commands)
      \<longleftrightarrow> (\<forall>s\<in>set subsets. set (subset_commands s) \<subseteq> dom commands)"
    using functions_loop_isl [of "{}" commands subsets "[]"] by (simp add: generate_functions_def)
  have r: "\<not> isl (resolve_type_dependencies subsets types commands)
      \<longleftrightarrow> (\<forall>s\<in>set subsets. set (subset_commands s) \<subseteq> dom commands)"
    using subset_types_loop_isl [of subsets commands "{}"]
    by (auto simp: resolve_type_dependencies_def split: sum.splits)
  from e f r show ?thesis by blast
qed

text \<open>
  C9 as stated fails: a feature may require an enum that the document does not declare.
  The parsers accept the document, and \<open>generate_enums\<close> raises KeyError, which ends
  \<open>parse_xml\<close>.
\<close>

theorem undeclared_enum_counterexample:
  "parse_xml_features undeclared_enum_document (int_value gl_1_0) ''gl'' [] =
     Inr [\<lparr>subset_name = ''VERSION_1_0'', subset_types = [], subset_enums = [''GL_FOO''],
            subset_commands = []\<rparr>]
   \<and> parse_xml_enums undeclared_enum_document ''gl'' = Inr Map.empty
   \<and> generate_enums
        [\<lparr>subset_name = ''VERSION_1_0'', subset_types = [], subset_enums = [''GL_FOO''],
            subset_commands = []\<rparr>] Map.empty = Inl (KeyError ''GL_FOO'')
   \<and> parse_xml undeclared_enum_document gl_1_0 [] = ([], Inl (KeyError ''GL_FOO''))"
  by (simp add: parse_xml_def parse_xml_features_def parse_xml_enums_def parse_xml_types_def
      parse_xml_commands_def parse_xml_extensions_def resolve_type_dependencies_def
      generate_enums_def generate_passthru_def resolve_unique_def
      feature_elements_def undeclared_enum_document_def gl_1_0_def int_value_def get_attr_def
      parse_int_version_def re_match_def number_pattern_def is_digit_def group_def py_int_def
      skipped_def extract_names_def List.map_filter_def)

theorem assembler_lookups_witness:
  "\<not> isl (generate_enums example_subsets Map.empty)
   \<and> \<not> isl (generate_functions example_subsets example_commands)
   \<and> isl (generate_enums
        [\<lparr>subset_name = ''VERSION_1_0'', subset_types = [], subset_enums = [''GL_FOO''],
            subset_commands = []\<rparr>] Map.empty)"
proof -
  have a: "\<forall>s\<in>set example_subsets. set (subset_enums s) \<subseteq> dom (Map.empty :: string \<rightharpoonup> string)"
    by (simp add: example_subsets_def)
  have b: "\<forall>s\<in>set example_subsets. set (subset_commands s) \<subseteq> dom example_commands"
    by (simp add: example_subsets_def example_commands_def)
  have c: "\<not> (\<forall>s\<in>set [\<lparr>subset_name = ''VERSION_1_0'', subset_types = [],
        subset_enums = [''GL_FOO''], subset_commands = []\<rparr>].
      set (subset_enums s) \<subseteq> dom (Map.empty :: string \<rightharpoonup> string))"
    by simp
  from assembler_lookups [of example_subsets Map.empty example_commands "[]"] a b
  have "\<not> isl (generate_enums example_subsets Map.empty)"
    "\<not> isl (generate_functions example_subsets example_commands)"
    by blast+
  moreover from assembler_lookups [of "[\<lparr>subset_name = ''VERSION_1_0'', subset_types = [],
        subset_enums = [''GL_FOO''], subset_commands = []\<rparr>]" Map.empty Map.empty "[]"] c
  have "isl (generate_enums
        [\<lparr>subset_name = ''VERSION_1_0'', subset_types = [], subset_enums = [''GL_FOO''],
            subset_commands = []\<rparr>] Map.empty)"
    by blast
  ultimately show ?thesis by blast
qed

end
